theory Spec2Isabelle
  imports Main "HOL-Library.Word" "HOL-Library.Monad_Syntax"
begin

unbundle bit_operations_syntax

section \<open>Machine integers and byte encodings\<close>

type_synonym u8 = "8 word"
type_synonym u16 = "16 word"
type_synonym u32 = "32 word"

text \<open>Little-endian layout of a 16-bit and of a 32-bit value in a datagram payload.\<close>

definition le16 :: "u16 \<Rightarrow> u8 list" where
  "le16 w = [ucast w, ucast (drop_bit 8 w)]"

definition le32 :: "u32 \<Rightarrow> u8 list" where
  "le32 w = [ucast w, ucast (drop_bit 8 w), ucast (drop_bit 16 w), ucast (drop_bit 24 w)]"

text \<open>
  Reading a payload through a typed pointer (\<^verbatim>\<open>T const*\<close> with T one of uint8_t, uint16_t,
  uint32_t). A payload shorter than the type is a read past the data: undefined, \<open>None\<close>.
\<close>

fun as_u8 :: "u8 list \<Rightarrow> u8 option" where
  "as_u8 (a # _) = Some a"
| "as_u8 _ = None"

fun as_u16 :: "u8 list \<Rightarrow> u16 option" where
  "as_u16 (a # b # _) = Some (ucast a OR push_bit 8 (ucast b))"
| "as_u16 _ = None"

fun as_u32 :: "u8 list \<Rightarrow> u32 option" where
  "as_u32 (a # b # c # d # _) =
     Some (ucast a OR push_bit 8 (ucast b) OR push_bit 16 (ucast c) OR push_bit 24 (ucast d))"
| "as_u32 _ = None"

section \<open>Protocol constants\<close>

text \<open>
  Modelled from the spec: protocol.h is not among the sources. The register offsets, AL
  states, EEPROM command and EEPROM word addresses are the values of section 6 of the
  specification; \<open>MAX_ETHERCAT_DATAGRAMS\<close> is the 15 of section 3.
\<close>

datatype Command = BRD | BWR | APRW | FPRD | FPRW

definition MAX_ETHERCAT_DATAGRAMS :: nat where "MAX_ETHERCAT_DATAGRAMS = 15"

definition reg_TYPE :: u16 where "reg_TYPE = 0x0000"
definition reg_STATION_ADDR :: u16 where "reg_STATION_ADDR = 0x0010"
definition reg_ESC_DL_PORT :: u16 where "reg_ESC_DL_PORT = 0x0101"
definition reg_AL_CONTROL :: u16 where "reg_AL_CONTROL = 0x0120"
definition reg_AL_STATUS :: u16 where "reg_AL_STATUS = 0x0130"
definition reg_RX_ERROR :: u16 where "reg_RX_ERROR = 0x0300"
definition reg_EEPROM_CONFIG :: u16 where "reg_EEPROM_CONFIG = 0x0500"
definition reg_EEPROM_CONTROL :: u16 where "reg_EEPROM_CONTROL = 0x0502"
definition reg_EEPROM_DATA :: u16 where "reg_EEPROM_DATA = 0x0508"
definition reg_FMMU :: u16 where "reg_FMMU = 0x0600"
definition reg_SYNC_MANAGER :: u16 where "reg_SYNC_MANAGER = 0x0800"
definition reg_SYNC_MANAGER_0 :: u16 where "reg_SYNC_MANAGER_0 = 0x0800"
definition reg_SYNC_MANAGER_1 :: u16 where "reg_SYNC_MANAGER_1 = 0x0808"
definition reg_SM_STATS :: u16 where "reg_SM_STATS = 0x05"
definition reg_DC_SYSTEM_TIME :: u16 where "reg_DC_SYSTEM_TIME = 0x0910"
definition reg_DC_SPEED_CNT_START :: u16 where "reg_DC_SPEED_CNT_START = 0x0930"
definition reg_DC_TIME_FILTER :: u16 where "reg_DC_TIME_FILTER = 0x0934"
definition reg_DC_SYNC_ACTIVATION :: u16 where "reg_DC_SYNC_ACTIVATION = 0x0980"

text \<open>AL states are kept as their byte values: \<^verbatim>\<open>State(data[0] & 0xF)\<close> can produce any nibble.\<close>

type_synonym State = u8

definition State_INVALID :: State where "State_INVALID = 0x00"
definition State_INIT :: State where "State_INIT = 0x01"
definition State_PRE_OP :: State where "State_PRE_OP = 0x02"
definition State_BOOT :: State where "State_BOOT = 0x03"
definition State_SAFE_OP :: State where "State_SAFE_OP = 0x04"
definition State_OP :: State where "State_OP = 0x08"
definition State_ACK :: State where "State_ACK = 0x10"

definition EepromCommand_READ :: u16 where "EepromCommand_READ = 0x0100"

definition eeprom_VENDOR_ID :: u16 where "eeprom_VENDOR_ID = 0x08"
definition eeprom_PRODUCT_CODE :: u16 where "eeprom_PRODUCT_CODE = 0x0A"
definition eeprom_REVISION_NUMBER :: u16 where "eeprom_REVISION_NUMBER = 0x0C"
definition eeprom_SERIAL_NUMBER :: u16 where "eeprom_SERIAL_NUMBER = 0x0E"
definition eeprom_STANDARD_MAILBOX :: u16 where "eeprom_STANDARD_MAILBOX = 0x18"
definition eeprom_RECV_MBO_OFFSET :: u16 where "eeprom_RECV_MBO_OFFSET = 0"
definition eeprom_SEND_MBO_OFFSET :: u16 where "eeprom_SEND_MBO_OFFSET = 2"
definition eeprom_MAILBOX_PROTOCOL :: u16 where "eeprom_MAILBOX_PROTOCOL = 0x1C"
definition eeprom_EEPROM_SIZE :: u16 where "eeprom_EEPROM_SIZE = 0x3E"

text \<open>
  Modelled from the spec: \<^verbatim>\<open>createAddress(position_or_addr, ado)\<close> of protocol.h is not
  among the sources. Section 4.1 packs the 32-bit address field as
  \<^verbatim>\<open>(station_address << 16) | register_offset\<close>; the first argument is a uint16_t, so the
  call \<^verbatim>\<open>createAddress(0 - i, ...)\<close> passes \<open>- i\<close> reduced modulo 65536.
\<close>

definition createAddress :: "u16 \<Rightarrow> u16 \<Rightarrow> u32" where
  "createAddress position ado = push_bit 16 (ucast position) OR ucast ado"

section \<open>Error values\<close>

text \<open>
  Modelled from the spec: Error.h is not among the sources. An \<^verbatim>\<open>Error\<close> is the stack of
  its messages: \<^verbatim>\<open>ESUCCESS\<close> is the empty stack, \<^verbatim>\<open>EERROR(msg)\<close> a stack of one message,
  \<^verbatim>\<open>err += e\<close> pushes the messages of \<open>e\<close>, and \<^verbatim>\<open>if (err)\<close> tests for a message.
\<close>

type_synonym Error = "string list"

definition ESUCCESS :: Error where "ESUCCESS = []"

definition EERROR :: "string \<Rightarrow> Error" where "EERROR msg = [msg]"

definition is_error :: "Error \<Rightarrow> bool" where "is_error err = (err \<noteq> [])"

definition Error_add :: "Error \<Rightarrow> Error \<Rightarrow> Error" where "Error_add err e = err @ e"

section \<open>Mailbox.h: message statuses and the session counter\<close>

text \<open>namespace MessageStatus, as the header declares it.\<close>

definition SUCCESS :: u32 where "SUCCESS = 0x000"
definition RUNNING :: u32 where "RUNNING = 0x001"
definition COE_WRONG_SERVICE :: u32 where "COE_WRONG_SERVICE = 0x101"
definition COE_UNKNOWN_SERVICE :: u32 where "COE_UNKNOWN_SERVICE = 0x102"
definition COE_CLIENT_BUFFER_TOO_SMALL :: u32 where "COE_CLIENT_BUFFER_TOO_SMALL = 0x103"
definition COE_SEGMENT_BAD_TOGGLE_BIT :: u32 where "COE_SEGMENT_BAD_TOGGLE_BIT = 0x103"

text \<open>
  struct Mailbox of Mailbox.h, without its message queues (no claim reads them).
  \<open>counter\<close> is initialised to 0 by the declaration \<^verbatim>\<open>uint8_t counter{0}\<close>.
\<close>

record Mailbox =
  recv_offset :: u16
  recv_size :: u16
  send_offset :: u16
  send_size :: u16
  can_read :: bool
  can_write :: bool
  counter :: u8
  toggle :: bool

text \<open>
  Modelled from the spec: \<^verbatim>\<open>Mailbox::nextCounter\<close> is declared in Mailbox.h, its body
  (Mailbox.cc) is not among the sources. Section 4.5: "next_counter() returns
  ((counter % 7) + 1)"; the value returned is the new session handle, kept in \<open>counter\<close>.
\<close>

definition nextCounter :: "Mailbox \<Rightarrow> u8 \<times> Mailbox" where
  "nextCounter m = (let c = (counter m mod 7) + 1 in (c, m\<lparr>counter := c\<rparr>))"

text \<open>The values returned by \<open>n\<close> successive calls of \<open>nextCounter\<close>, oldest first.\<close>

fun nextCounter_calls :: "nat \<Rightarrow> Mailbox \<Rightarrow> u8 list" where
  "nextCounter_calls 0 m = []"
| "nextCounter_calls (Suc n) m = fst (nextCounter m) # nextCounter_calls n (snd (nextCounter m))"

section \<open>Datagrams, frames and the socket\<close>

text \<open>
  A datagram as the controller sees it: the header fields it stamps, the payload bytes, and
  the working counter that trails the payload.
\<close>

record Datagram =
  dg_index :: u8
  dg_command :: Command
  dg_address :: u32
  dg_payload :: "u8 list"
  dg_wkc :: u16

text \<open>
  Modelled from the spec: class Frame (Frame.h, Frame.cc) is not among the sources. Section
  4.2: a frame owns a buffer sized to the Ethernet MTU (1500 bytes) and holds datagrams in
  issue order; \<^verbatim>\<open>addDatagram\<close> fails with FrameFull, leaving the frame as it was, when the
  frame already holds 15 datagrams or the datagram (10-byte header, payload, 2-byte working
  counter, after the 2-byte EtherCAT header) does not fit; \<^verbatim>\<open>nextDatagram\<close> pops the next
  reply in issue order and is undefined when none is left; the \<open>multiple\<close> flag of a
  header says that further datagrams follow in the frame. A null data pointer stands for a
  payload of \<open>data_size\<close> zero bytes.
\<close>

record Frame =
  datagrams :: "Datagram list"

definition Frame_new :: Frame where
  "Frame_new = \<lparr>datagrams = []\<rparr>"

definition datagramCounter :: "Frame \<Rightarrow> nat" where
  "datagramCounter f = length (datagrams f)"

definition datagram_bytes :: "Datagram \<Rightarrow> nat" where
  "datagram_bytes d = 10 + length (dg_payload d) + 2"

definition freeSpace :: "Frame \<Rightarrow> nat" where
  "freeSpace f = 1500 - 2 - sum_list (map datagram_bytes (datagrams f))"

definition Frame_clear :: "Frame \<Rightarrow> Frame" where
  "Frame_clear f = f\<lparr>datagrams := []\<rparr>"

definition null_data :: "nat \<Rightarrow> u8 list" where
  "null_data data_size = replicate data_size 0"

definition Frame_addDatagram :: "u8 \<Rightarrow> Command \<Rightarrow> u32 \<Rightarrow> u8 list \<Rightarrow> Frame \<Rightarrow> Frame" where
  "Frame_addDatagram index cmd addr data f =
     (if datagramCounter f = MAX_ETHERCAT_DATAGRAMS \<or> freeSpace f < 12 + length data then f
      else f\<lparr>datagrams := datagrams f @
             [\<lparr>dg_index = index, dg_command = cmd, dg_address = addr, dg_payload = data, dg_wkc = 0\<rparr>]\<rparr>)"

text \<open>The reply a caller destructures: \<^verbatim>\<open>auto [header, data, wkc]\<close>; of the header only
  \<open>multiple\<close> (here \<open>ans_multiple\<close>) is read by the controller.\<close>

record Answer =
  ans_multiple :: bool
  ans_data :: "u8 list"
  ans_wkc :: u16

definition Frame_nextDatagram :: "Frame \<Rightarrow> (Answer \<times> Frame) option" where
  "Frame_nextDatagram f =
     (case datagrams f of
        [] \<Rightarrow> None
      | d # ds \<Rightarrow> Some (\<lparr>ans_multiple = (ds \<noteq> []), ans_data = dg_payload d, ans_wkc = dg_wkc d\<rparr>,
                       f\<lparr>datagrams := ds\<rparr>))"

text \<open>
  Modelled from the spec: AbstractSocket.h is not among the sources. The socket is the list of
  what the link will answer to the frames still to be written, first answer first: a reply
  frame (its datagrams), or an I/O failure with its message. A socket with no answer left
  fails (a read timeout). Section 4.2, \<^verbatim>\<open>write_then_read\<close>: "on return the buffer holds the
  reply parsed in place"; on failure the frame is left as it was written.
\<close>

datatype Response = Reply "Datagram list" | Failure string

type_synonym Socket = "Response list"

definition Frame_writeThenRead :: "Frame \<Rightarrow> Socket \<Rightarrow> Error \<times> Frame \<times> Socket" where
  "Frame_writeThenRead f sock =
     (case sock of
        [] \<Rightarrow> (EERROR ''read timeout'', f, [])
      | Failure msg # rest \<Rightarrow> (EERROR msg, f, rest)
      | Reply ds # rest \<Rightarrow> (ESUCCESS, f\<lparr>datagrams := ds\<rparr>, rest))"

section \<open>Bus.h: slaves and the bus controller\<close>

record SlaveMailbox =
  mb_recv_offset :: u16
  mb_recv_size :: u16
  mb_send_offset :: u16
  mb_send_size :: u16
  read_available :: bool
  write_available :: bool

text \<open>\<open>supported_mailbox\<close> is the enum MailboxProtocol (protocol.h), kept as the word it is cast from.\<close>

record Slave =
  address :: u16
  vendor_id :: u32
  product_code :: u32
  revision_number :: u32
  serial_number :: u32
  mailbox :: SlaveMailbox
  mailbox_bootstrap :: SlaveMailbox
  supported_mailbox :: u32
  eeprom_size :: u32
  eeprom_version :: u16

definition SlaveMailbox_new :: SlaveMailbox where
  "SlaveMailbox_new = \<lparr>mb_recv_offset = 0, mb_recv_size = 0, mb_send_offset = 0, mb_send_size = 0,
     read_available = False, write_available = False\<rparr>"

text \<open>The value-initialised element that \<^verbatim>\<open>slaves.resize\<close> appends.\<close>

definition Slave_new :: Slave where
  "Slave_new = \<lparr>address = 0, vendor_id = 0, product_code = 0, revision_number = 0, serial_number = 0,
     mailbox = SlaveMailbox_new, mailbox_bootstrap = SlaveMailbox_new, supported_mailbox = 0,
     eeprom_size = 0, eeprom_version = 0\<rparr>"

text \<open>
  What the controller does to the outside, oldest first: a frame handed to the socket
  (\<open>Written\<close>, with the datagrams it carried) and a pause of the calling thread
  (\<open>Slept\<close>, the microseconds given to \<^verbatim>\<open>usleep\<close>, a 32-bit useconds_t).
\<close>

datatype Event = Written "Datagram list" | Slept u32

text \<open>
  class Bus: the private members of Bus.h (\<open>idx\<close> is \<^verbatim>\<open>idx_\<close>, and so on: a name
  cannot end with an underscore here), and \<open>events\<close>, the record of its effects.
  \<open>current_frame\<close> is an int32_t that is only reset to 0 and incremented.
\<close>

record Bus =
  idx :: u8
  socket :: Socket
  frames :: "Frame list"
  current_frame :: nat
  slaves :: "Slave list"
  events :: "Event list"

text \<open>The constructor: one frame, no slave, counter 0.\<close>

definition Bus_new :: "Socket \<Rightarrow> Bus" where
  "Bus_new sock = \<lparr>idx = 0, socket = sock, frames = [Frame_new], current_frame = 0,
     slaves = [], events = []\<rparr>"

definition usleep :: "u32 \<Rightarrow> Bus \<Rightarrow> Bus" where
  "usleep us b = b\<lparr>events := events b @ [Slept us]\<rparr>"

text \<open>
  \<^verbatim>\<open>frames[k].writeThenRead(socket)\<close>: the frame is handed to the socket and replaced by the
  reply. An index outside \<open>frames\<close> is undefined behaviour: \<open>None\<close>.
\<close>

definition writeThenRead_at :: "nat \<Rightarrow> Bus \<Rightarrow> (Error \<times> Bus) option" where
  "writeThenRead_at k b =
     (if k < length (frames b) then
        (case Frame_writeThenRead (frames b ! k) (socket b) of
           (err, f, sock) \<Rightarrow>
             Some (err, b\<lparr>frames := (frames b)[k := f], socket := sock,
                          events := events b @ [Written (datagrams (frames b ! k))]\<rparr>))
      else None)"

definition addDatagram_at :: "nat \<Rightarrow> u8 \<Rightarrow> Command \<Rightarrow> u32 \<Rightarrow> u8 list \<Rightarrow> Bus \<Rightarrow> Bus option" where
  "addDatagram_at k index cmd addr data b =
     (if k < length (frames b) then
        Some (b\<lparr>frames := (frames b)[k := Frame_addDatagram index cmd addr data (frames b ! k)]\<rparr>)
      else None)"

definition nextDatagram_at :: "nat \<Rightarrow> Bus \<Rightarrow> (Answer \<times> Bus) option" where
  "nextDatagram_at k b =
     (if k < length (frames b) then
        (case Frame_nextDatagram (frames b ! k) of
           None \<Rightarrow> None
         | Some (a, f) \<Rightarrow> Some (a, b\<lparr>frames := (frames b)[k := f]\<rparr>))
      else None)"

text \<open>
  Modelled from the spec: the template \<^verbatim>\<open>Bus::nextDatagram<T>\<close> lives in Bus.tpp, which is
  not among the sources. Section 4.3: "Reply iteration is provided by next_datagram<T>()
  which auto-advances across frame boundaries": when the current frame has no reply left,
  the cursor moves to the next frame. The cast to \<open>T\<close> is done by the caller here
  (\<open>as_u8\<close>, \<open>as_u16\<close>, \<open>as_u32\<close>).
\<close>

definition nextDatagram :: "Bus \<Rightarrow> (Answer \<times> Bus) option" where
  "nextDatagram b =
     (if current_frame b < length (frames b) \<and> datagramCounter (frames b ! current_frame b) = 0
      then nextDatagram_at (Suc (current_frame b)) (b\<lparr>current_frame := Suc (current_frame b)\<rparr>)
      else nextDatagram_at (current_frame b) b)"

subsection \<open>Bus.cc\<close>

definition getSlavesOnNetwork :: "Bus \<Rightarrow> u16" where
  "getSlavesOnNetwork b = of_nat (length (slaves b))"

definition broadcastRead :: "u16 \<Rightarrow> nat \<Rightarrow> Bus \<Rightarrow> (u16 \<times> Bus) option" where
  "broadcastRead ADO data_size b = do {
     b1 \<leftarrow> addDatagram_at 0 (idx b) BRD (createAddress 0 ADO) (null_data data_size) b;
     (err, b2) \<leftarrow> writeThenRead_at 0 b1;
     if is_error err then Some (0, b2)
     else do {
       (a, b3) \<leftarrow> nextDatagram_at 0 b2;
       Some (ans_wkc a, b3\<lparr>idx := idx b3 + 1\<rparr>)
     }
   }"

definition broadcastWrite :: "u16 \<Rightarrow> u8 list \<Rightarrow> Bus \<Rightarrow> (u16 \<times> Bus) option" where
  "broadcastWrite ADO data b = do {
     b1 \<leftarrow> addDatagram_at 0 (idx b) BWR (createAddress 0 ADO) data b;
     (err, b2) \<leftarrow> writeThenRead_at 0 b1;
     if is_error err then Some (0, b2)
     else do {
       (a, b3) \<leftarrow> nextDatagram_at 0 b2;
       Some (ans_wkc a, b3\<lparr>idx := idx b3 + 1\<rparr>)
     }
   }"

text \<open>
  \<^verbatim>\<open>Bus::addDatagram\<close>: the datagram goes to the current frame, or to the next one when the
  current frame holds 15 datagrams or has less free space than the payload. An index
  outside \<open>frames\<close> is undefined behaviour: \<open>None\<close>. \<open>idx\<close> is stamped and left as it is.
\<close>

definition addDatagram :: "Command \<Rightarrow> u32 \<Rightarrow> u8 list \<Rightarrow> Bus \<Rightarrow> Bus option" where
  "addDatagram cmd addr data b =
     (if current_frame b < length (frames b) then
        (if datagramCounter (frames b ! current_frame b) = MAX_ETHERCAT_DATAGRAMS
            \<or> freeSpace (frames b ! current_frame b) < length data
         then addDatagram_at (Suc (current_frame b)) (idx b) cmd addr data
                (b\<lparr>current_frame := Suc (current_frame b)\<rparr>)
         else addDatagram_at (current_frame b) (idx b) cmd addr data b)
      else None)"

text \<open>
  The loop of \<^verbatim>\<open>Bus::processFrames\<close> over \<open>frames\<close>: it stops at the first frame without
  datagram, and returns at the first frame the socket fails on.
\<close>

fun processFrames_from :: "Frame list \<Rightarrow> Socket \<Rightarrow> Event list \<Rightarrow> Error \<times> Frame list \<times> Socket \<times> Event list" where
  "processFrames_from [] sock ev = (ESUCCESS, [], sock, ev)"
| "processFrames_from (f # fs) sock ev =
     (if datagramCounter f = 0 then (ESUCCESS, f # fs, sock, ev)
      else (case Frame_writeThenRead f sock of
              (err, f', sock') \<Rightarrow>
                if is_error err then (err, f' # fs, sock', ev @ [Written (datagrams f)])
                else (case processFrames_from fs sock' (ev @ [Written (datagrams f)]) of
                        (err', fs', sock'', ev') \<Rightarrow> (err', f' # fs', sock'', ev'))))"

definition processFrames :: "Bus \<Rightarrow> Error \<times> Bus" where
  "processFrames b =
     (case processFrames_from (frames b) (socket b) (events b) of
        (err, fs, sock, ev) \<Rightarrow>
          (err, b\<lparr>current_frame := 0, frames := fs, socket := sock, events := ev\<rparr>))"

text \<open>\<^verbatim>\<open>slaves.resize(wkc)\<close>.\<close>

definition resize :: "nat \<Rightarrow> Slave list \<Rightarrow> Slave list" where
  "resize n xs = take n xs @ replicate (n - length xs) Slave_new"

text \<open>
  \<^verbatim>\<open>needed_frames\<close> of \<^verbatim>\<open>Bus::detectSlaves\<close>: int arithmetic on a uint16_t, at most
  \<open>(131070 / 15 + 1) * 2\<close>, so nothing wraps.
\<close>

definition needed_frames :: "u16 \<Rightarrow> nat" where
  "needed_frames wkc = (unat wkc * 2 div MAX_ETHERCAT_DATAGRAMS + 1) * 2"

definition detectSlaves :: "Bus \<Rightarrow> (Error \<times> Bus) option" where
  "detectSlaves b = do {
     (wkc, b1) \<leftarrow> broadcastRead reg_TYPE 1 b;
     if wkc = 0 then Some (EERROR ''No slaves on the bus'', b1)
     else Some (ESUCCESS,
       b1\<lparr>slaves := resize (unat wkc) (slaves b1),
          frames := frames b1 @ replicate (needed_frames wkc - 1) Frame_new\<rparr>)
   }"

definition requestState :: "State \<Rightarrow> Bus \<Rightarrow> (Error \<times> Bus) option" where
  "requestState request b = do {
     (wkc, b1) \<leftarrow> broadcastWrite reg_AL_CONTROL (le16 (ucast (request OR State_ACK))) b;
     if unat wkc \<noteq> length (slaves b1) then Some (EERROR ''failed to request state'', b1)
     else Some (ESUCCESS, b1)
   }"

text \<open>\<^verbatim>\<open>Bus::getCurrentState\<close>: the datagram is stamped with the literal 0x55.\<close>

definition getCurrentState :: "Slave \<Rightarrow> Bus \<Rightarrow> (State \<times> Bus) option" where
  "getCurrentState slave b = do {
     b1 \<leftarrow> addDatagram_at 0 0x55 FPRD (createAddress (address slave) reg_AL_STATUS) (null_data 2) b;
     (err, b2) \<leftarrow> writeThenRead_at 0 b1;
     if is_error err then Some (State_INVALID, b2)
     else do {
       (a, b3) \<leftarrow> nextDatagram_at 0 b2;
       d0 \<leftarrow> as_u8 (ans_data a);
       Some (d0 AND 0xF, b3)
     }
   }"

text \<open>\<^verbatim>\<open>Bus::resetSlaves\<close>; \<open>param\<close> is a buffer of 256 zero bytes.\<close>

definition resetSlaves :: "Bus \<Rightarrow> (Error \<times> Bus) option" where
  "resetSlaves b = do {
     (_, b1) \<leftarrow> broadcastWrite reg_ESC_DL_PORT (null_data 1) b;
     (_, b2) \<leftarrow> broadcastWrite reg_RX_ERROR (null_data 8) b1;
     (_, b3) \<leftarrow> broadcastWrite reg_FMMU (null_data 256) b2;
     (_, b4) \<leftarrow> broadcastWrite reg_SYNC_MANAGER (null_data 128) b3;
     (_, b5) \<leftarrow> broadcastWrite reg_DC_SYSTEM_TIME (null_data 8) b4;
     (_, b6) \<leftarrow> broadcastWrite reg_DC_SYNC_ACTIVATION (null_data 1) b5;
     (_, b7) \<leftarrow> broadcastWrite reg_DC_SPEED_CNT_START (le16 0x1000) b6;
     (_, b8) \<leftarrow> broadcastWrite reg_DC_TIME_FILTER (le16 0x0c00) b7;
     (err, b9) \<leftarrow> requestState State_INIT b8;
     if is_error err then Some (Error_add err (EERROR []), b9)
     else do {
       (_, b10) \<leftarrow> broadcastWrite reg_EEPROM_CONFIG (null_data 2) b9;
       Some (ESUCCESS, b10)
     }
   }"

text \<open>
  The two SyncManager structures that \<^verbatim>\<open>Bus::configureMailboxes\<close> writes for a slave. The
  struct is declared in protocol.h (not among the sources); its 8 bytes are laid out in
  the order the code assigns the fields.
\<close>

definition SyncManager_bytes :: "u16 \<Rightarrow> u16 \<Rightarrow> u8 \<Rightarrow> u8 \<Rightarrow> u8 \<Rightarrow> u8 \<Rightarrow> u8 list" where
  "SyncManager_bytes start_address len control status activate pdi_control =
     le16 start_address @ le16 len @ [control, status, activate, pdi_control]"

definition mailbox_SM :: "Slave \<Rightarrow> u8 list" where
  "mailbox_SM slave =
     SyncManager_bytes (mb_recv_offset (mailbox slave)) (mb_recv_size (mailbox slave)) 0x26 0x00 0x01 0x00
     @ SyncManager_bytes (mb_send_offset (mailbox slave)) (mb_send_size (mailbox slave)) 0x22 0x00 0x01 0x00"

fun configureMailboxes_request :: "Slave list \<Rightarrow> Bus \<Rightarrow> Bus option" where
  "configureMailboxes_request [] b = Some b"
| "configureMailboxes_request (slave # rest) b =
     (if supported_mailbox slave \<noteq> 0 then do {
        b1 \<leftarrow> addDatagram FPRW (createAddress (address slave) reg_SYNC_MANAGER) (mailbox_SM slave) b;
        configureMailboxes_request rest b1
      }
      else configureMailboxes_request rest b)"

definition configureMailboxes :: "Bus \<Rightarrow> (Error \<times> Bus) option" where
  "configureMailboxes b = do {
     b1 \<leftarrow> configureMailboxes_request (slaves b) b;
     Some (processFrames b1)
   }"

subsection \<open>EEPROM\<close>

fun areEepromReady_request :: "Slave list \<Rightarrow> Bus \<Rightarrow> Bus option" where
  "areEepromReady_request [] b = Some b"
| "areEepromReady_request (slave # rest) b = do {
     b1 \<leftarrow> addDatagram FPRD (createAddress (address slave) reg_EEPROM_CONTROL) (null_data 2) b;
     areEepromReady_request rest b1
   }"

text \<open>
  The do-while of \<^verbatim>\<open>Bus::areEepromReady\<close>: it reads replies while the header just read has
  \<open>multiple\<close> set; on a busy answer it clears every frame and leaves with
  \<open>ready = false\<close>. A working counter other than 1 is only logged. Every reply read is
  popped, so the number of datagrams the frames hold (\<open>held\<close>) decreases.
\<close>

definition held :: "Bus \<Rightarrow> nat" where
  "held b = sum_list (map datagramCounter (frames b))"

function areEepromReady_scan :: "Bus \<Rightarrow> (bool \<times> Bus) option" where
  "areEepromReady_scan b =
     (case nextDatagram b of
        None \<Rightarrow> None
      | Some (a, b1) \<Rightarrow>
          (case as_u16 (ans_data a) of
             None \<Rightarrow> None
           | Some answer \<Rightarrow>
               if answer AND 0x8000 \<noteq> 0 then Some (False, b1\<lparr>frames := map Frame_clear (frames b1)\<rparr>)
               else if ans_multiple a then areEepromReady_scan b1
               else Some (True, b1)))"
  by pat_completeness auto
termination
proof (relation "measure held")
  show "wf (measure held)" by simp
next
  fix b :: Bus and x a b1 answer
  assume nd: "nextDatagram b = Some x" and x: "(a, b1) = x"
  have pop: "held b' < held c" if "nextDatagram_at k c = Some (a', b')" for k c a' b'
  proof -
    from that obtain d ds where k: "k < length (frames c)"
      and ds: "datagrams (frames c ! k) = d # ds"
      and b': "frames b' = (frames c)[k := (frames c ! k)\<lparr>datagrams := ds\<rparr>]"
      by (auto simp: nextDatagram_at_def Frame_nextDatagram_def split: if_splits list.splits)
    have "datagramCounter (frames c ! k) \<in> set (map datagramCounter (frames c))"
      using k by simp
    then have le: "datagramCounter (frames c ! k) \<le> sum_list (map datagramCounter (frames c))"
      by (simp add: member_le_sum_list)
    have "sum_list (map datagramCounter (frames b')) + datagramCounter (frames c ! k)
          = sum_list (map datagramCounter (frames c)) + length ds"
      using k le by (simp add: b' map_update sum_list_update datagramCounter_def)
    then show ?thesis by (simp add: held_def ds datagramCounter_def)
  qed
  have "held b1 < held b"
    using nd x pop [of _ b a b1] pop [of _ "b\<lparr>current_frame := Suc (current_frame b)\<rparr>" a b1]
    by (auto simp: nextDatagram_def held_def split: if_splits)
  then show "(b1, b) \<in> measure held" by simp
qed

declare areEepromReady_scan.simps [simp del]

text \<open>
  The for loop of \<^verbatim>\<open>Bus::areEepromReady\<close>, by the iterations left (\<open>10 - i\<close>). The inner
  \<open>ready\<close> shadows the outer one, which stays false: the loop is left by the returns only.
\<close>

fun areEepromReady_poll :: "nat \<Rightarrow> Bus \<Rightarrow> (bool \<times> Bus) option" where
  "areEepromReady_poll 0 b = Some (False, b)"
| "areEepromReady_poll (Suc left) b = do {
     b1 \<leftarrow> areEepromReady_request (slaves b) (usleep 200 b);
     (case processFrames b1 of
        (err, b2) \<Rightarrow>
          if is_error err then Some (False, b2)
          else do {
            (ready, b3) \<leftarrow> areEepromReady_scan b2;
            if ready then Some (True, b3) else areEepromReady_poll left b3
          })
   }"

definition areEepromReady :: "Bus \<Rightarrow> (bool \<times> Bus) option" where
  "areEepromReady b = areEepromReady_poll 10 b"

fun readEeprom_request :: "Slave list \<Rightarrow> Bus \<Rightarrow> Bus option" where
  "readEeprom_request [] b = Some b"
| "readEeprom_request (slave # rest) b = do {
     b1 \<leftarrow> addDatagram FPRD (createAddress (address slave) reg_EEPROM_DATA) (null_data 4) b;
     readEeprom_request rest b1
   }"

text \<open>The last loop of \<^verbatim>\<open>Bus::readEeprom\<close>: one reply per slave, handed to \<open>apply\<close>
  (here \<open>store\<close>); a working counter other than 1 is only logged.\<close>

fun readEeprom_extract :: "(Slave \<Rightarrow> u32 \<Rightarrow> Slave) \<Rightarrow> Slave list \<Rightarrow> Bus \<Rightarrow> (Slave list \<times> Bus) option" where
  "readEeprom_extract store [] b = Some ([], b)"
| "readEeprom_extract store (slave # rest) b = do {
     (a, b1) \<leftarrow> nextDatagram b;
     answer \<leftarrow> as_u32 (ans_data a);
     (rest', b2) \<leftarrow> readEeprom_extract store rest b1;
     Some (store slave answer # rest', b2)
   }"

definition readEeprom :: "u16 \<Rightarrow> (Slave \<Rightarrow> u32 \<Rightarrow> Slave) \<Rightarrow> Bus \<Rightarrow> (Error \<times> Bus) option" where
  "readEeprom addr store b = do {
     (wkc, b1) \<leftarrow> broadcastWrite reg_EEPROM_CONTROL (le16 EepromCommand_READ @ le16 addr @ le16 0) b;
     if unat wkc \<noteq> length (slaves b1) then Some (EERROR ''wrong slave number'', b1)
     else do {
       (ready, b2) \<leftarrow> areEepromReady b1;
       if \<not> ready then Some (EERROR ''eeprom not ready - timeout'', b2)
       else do {
         b3 \<leftarrow> readEeprom_request (slaves b2) b2;
         (case processFrames b3 of
            (err, b4) \<Rightarrow>
              if is_error err then Some (err, b4)
              else do {
                (sl, b5) \<leftarrow> readEeprom_extract store (slaves b4) b4;
                Some (ESUCCESS, b5\<lparr>slaves := sl\<rparr>)
              })
       }
     }
   }"

text \<open>The lambdas of \<^verbatim>\<open>Bus::fetchEeprom\<close>; an assignment to a uint16_t field keeps the low 16 bits.\<close>

definition store_vendor_id :: "Slave \<Rightarrow> u32 \<Rightarrow> Slave" where
  "store_vendor_id s word = s\<lparr>vendor_id := word\<rparr>"

definition store_product_code :: "Slave \<Rightarrow> u32 \<Rightarrow> Slave" where
  "store_product_code s word = s\<lparr>product_code := word\<rparr>"

definition store_revision_number :: "Slave \<Rightarrow> u32 \<Rightarrow> Slave" where
  "store_revision_number s word = s\<lparr>revision_number := word\<rparr>"

definition store_serial_number :: "Slave \<Rightarrow> u32 \<Rightarrow> Slave" where
  "store_serial_number s word = s\<lparr>serial_number := word\<rparr>"

definition store_recv_mailbox :: "Slave \<Rightarrow> u32 \<Rightarrow> Slave" where
  "store_recv_mailbox s word =
     s\<lparr>mailbox := (mailbox s)\<lparr>mb_recv_offset := ucast word, mb_recv_size := ucast (drop_bit 16 word)\<rparr>\<rparr>"

definition store_send_mailbox :: "Slave \<Rightarrow> u32 \<Rightarrow> Slave" where
  "store_send_mailbox s word =
     s\<lparr>mailbox := (mailbox s)\<lparr>mb_send_offset := ucast word, mb_send_size := ucast (drop_bit 16 word)\<rparr>\<rparr>"

definition store_supported_mailbox :: "Slave \<Rightarrow> u32 \<Rightarrow> Slave" where
  "store_supported_mailbox s word = s\<lparr>supported_mailbox := word\<rparr>"

definition store_eeprom_size :: "Slave \<Rightarrow> u32 \<Rightarrow> Slave" where
  "store_eeprom_size s word =
     s\<lparr>eeprom_size := ((word AND 0xFF) + 1) * 128, eeprom_version := ucast (drop_bit 16 word)\<rparr>"

text \<open>\<^verbatim>\<open>Bus::fetchEeprom\<close> drops the Error of every \<^verbatim>\<open>readEeprom\<close>; \<^verbatim>\<open>printSlavesInfo\<close> only prints.\<close>

definition fetchEeprom :: "Bus \<Rightarrow> (Error \<times> Bus) option" where
  "fetchEeprom b = do {
     (_, b1) \<leftarrow> readEeprom eeprom_VENDOR_ID store_vendor_id b;
     (_, b2) \<leftarrow> readEeprom eeprom_PRODUCT_CODE store_product_code b1;
     (_, b3) \<leftarrow> readEeprom eeprom_REVISION_NUMBER store_revision_number b2;
     (_, b4) \<leftarrow> readEeprom eeprom_SERIAL_NUMBER store_serial_number b3;
     (_, b5) \<leftarrow> readEeprom (eeprom_STANDARD_MAILBOX + eeprom_RECV_MBO_OFFSET) store_recv_mailbox b4;
     (_, b6) \<leftarrow> readEeprom (eeprom_STANDARD_MAILBOX + eeprom_SEND_MBO_OFFSET) store_send_mailbox b5;
     (_, b7) \<leftarrow> readEeprom eeprom_MAILBOX_PROTOCOL store_supported_mailbox b6;
     (_, b8) \<leftarrow> readEeprom eeprom_EEPROM_SIZE store_eeprom_size b7;
     Some (ESUCCESS, b8)
   }"

subsection \<open>Mailbox availability\<close>

fun checkMailboxes_request :: "Slave list \<Rightarrow> Bus \<Rightarrow> Bus option" where
  "checkMailboxes_request [] b = Some b"
| "checkMailboxes_request (slave # rest) b = do {
     b1 \<leftarrow> addDatagram FPRD (createAddress (address slave) (reg_SYNC_MANAGER_0 + reg_SM_STATS)) (null_data 1) b;
     b2 \<leftarrow> addDatagram FPRD (createAddress (address slave) (reg_SYNC_MANAGER_1 + reg_SM_STATS)) (null_data 1) b1;
     checkMailboxes_request rest b2
   }"

text \<open>The lambda \<open>isFull\<close> of \<^verbatim>\<open>Bus::checkMailboxes\<close>: it reads the next reply.\<close>

definition isFull :: "bool \<Rightarrow> Bus \<Rightarrow> (bool \<times> Bus) option" where
  "isFull stable_value b = do {
     (a, b1) \<leftarrow> nextDatagram b;
     if ans_wkc a \<noteq> 1 then Some (stable_value, b1)
     else do {
       state \<leftarrow> as_u8 (ans_data a);
       Some (state AND 0x08 = 0x08, b1)
     }
   }"

text \<open>The second loop of \<^verbatim>\<open>Bus::checkMailboxes\<close>: \<open>read_available\<close> takes the first
  reply of the slave, \<open>write_available\<close> the second.\<close>

fun checkMailboxes_decode :: "Slave list \<Rightarrow> Bus \<Rightarrow> (Slave list \<times> Bus) option" where
  "checkMailboxes_decode [] b = Some ([], b)"
| "checkMailboxes_decode (slave # rest) b = do {
     (r, b1) \<leftarrow> isFull False b;
     (w, b2) \<leftarrow> isFull True b1;
     (rest', b3) \<leftarrow> checkMailboxes_decode rest b2;
     Some (slave\<lparr>mailbox := (mailbox slave)\<lparr>read_available := r, write_available := w\<rparr>\<rparr> # rest', b3)
   }"

text \<open>\<^verbatim>\<open>Bus::checkMailboxes(std::vector<Slave>& slaves)\<close>: the vector is returned as updated.\<close>

definition checkMailboxes :: "Slave list \<Rightarrow> Bus \<Rightarrow> (Slave list \<times> Bus) option" where
  "checkMailboxes sl b = do {
     b1 \<leftarrow> checkMailboxes_request sl b;
     (case processFrames b1 of
        (err, b2) \<Rightarrow> if is_error err then Some (sl, b2) else checkMailboxes_decode sl b2)
   }"

subsection \<open>Bring-up\<close>

text \<open>The addressing loop of \<^verbatim>\<open>Bus::init\<close>, from index \<open>i\<close> on.\<close>

fun init_set_addresses :: "nat \<Rightarrow> Slave list \<Rightarrow> Bus \<Rightarrow> (Slave list \<times> Bus) option" where
  "init_set_addresses i [] b = Some ([], b)"
| "init_set_addresses i (slave # rest) b = do {
     b1 \<leftarrow> addDatagram APRW (createAddress (0 - of_nat i) reg_STATION_ADDR) (le16 (0x1000 + of_nat i)) b;
     (rest', b2) \<leftarrow> init_set_addresses (Suc i) rest b1;
     Some (slave\<lparr>address := 0x1000 + of_nat i\<rparr> # rest', b2)
   }"

text \<open>The last loop of \<^verbatim>\<open>Bus::init\<close>: the state of every slave is read once and printed;
  the states are returned in the order they were printed.\<close>

fun init_report :: "Slave list \<Rightarrow> Bus \<Rightarrow> (State list \<times> Bus) option" where
  "init_report [] b = Some ([], b)"
| "init_report (slave # rest) b = do {
     (state, b1) \<leftarrow> getCurrentState slave b;
     (states, b2) \<leftarrow> init_report rest b1;
     Some (state # states, b2)
   }"

text \<open>
  \<^verbatim>\<open>Bus::init\<close> from the PRE_OP request to its return (lines 146 to 159); \<open>err\<close> is
  the Error of \<^verbatim>\<open>configureMailboxes\<close>. The Error of \<^verbatim>\<open>requestState\<close> is dropped.
\<close>

definition init_preop :: "Error \<Rightarrow> Bus \<Rightarrow> ((Error \<times> State list) \<times> Bus) option" where
  "init_preop err b = do {
     (_, b1) \<leftarrow> requestState State_PRE_OP b;
     (sl, b2) \<leftarrow> checkMailboxes (slaves (usleep 10000 b1)) (usleep 10000 b1);
     (states, b3) \<leftarrow> init_report sl (b2\<lparr>slaves := sl\<rparr>);
     Some ((Error_add err (EERROR ''Not implemented''), states), b3)
   }"

text \<open>\<^verbatim>\<open>Bus::init\<close>; beside the Error it returns, the states it printed.\<close>

definition init :: "Bus \<Rightarrow> ((Error \<times> State list) \<times> Bus) option" where
  "init b = do {
     (err, b1) \<leftarrow> detectSlaves b;
     if is_error err then Some ((err, []), b1)
     else do {
       (err, b2) \<leftarrow> resetSlaves b1;
       if is_error err then Some ((err, []), b2)
       else do {
         (sl, b3) \<leftarrow> init_set_addresses 0 (slaves b2) b2;
         (case processFrames (b3\<lparr>slaves := sl\<rparr>) of
            (err, b4) \<Rightarrow>
              if is_error err then Some ((err, []), b4)
              else do {
                (err, b5) \<leftarrow> fetchEeprom b4;
                if is_error err then Some ((err, []), b5)
                else do {
                  (err, b6) \<leftarrow> configureMailboxes b5;
                  if is_error err then Some ((err, []), b6)
                  else init_preop err b6
                }
              })
       }
     }
   }"

section \<open>Notions used in the statements\<close>

text \<open>A mailbox as constructed: every field zero, \<open>counter\<close> 0.\<close>

definition Mailbox_new :: Mailbox where
  "Mailbox_new = \<lparr>recv_offset = 0, recv_size = 0, send_offset = 0, send_size = 0,
     can_read = False, can_write = False, counter = 0, toggle = False\<rparr>"

text \<open>The next write to the socket, or the read after it, fails.\<close>

definition link_fails :: "Socket \<Rightarrow> bool" where
  "link_fails sock = (case sock of [] \<Rightarrow> True | Failure _ # _ \<Rightarrow> True | Reply _ # _ \<Rightarrow> False)"

text \<open>\<open>ceil (a / b)\<close> on natural numbers.\<close>

definition ceil_div :: "nat \<Rightarrow> nat \<Rightarrow> nat" where
  "ceil_div a b = (a + b - 1) div b"

text \<open>The reply to a broadcast on which \<open>n\<close> slaves answered.\<close>

definition reply_wkc :: "u16 \<Rightarrow> Datagram" where
  "reply_wkc n = \<lparr>dg_index = 0, dg_command = BRD, dg_address = 0, dg_payload = [0], dg_wkc = n\<rparr>"

text \<open>A slave of the vector with its station address set, and \<open>n\<close> of them from 0x1000 on.\<close>

definition slave_at :: "u16 \<Rightarrow> Slave" where
  "slave_at a = Slave_new\<lparr>address := a\<rparr>"

definition slaves_from_0x1000 :: "nat \<Rightarrow> Slave list" where
  "slaves_from_0x1000 n = map (\<lambda>i. slave_at (0x1000 + of_nat i)) [0..<n]"

text \<open>A controller between two exchanges: \<open>n\<close> empty frames, the cursor on the first.\<close>

definition Bus_idle :: "Slave list \<Rightarrow> nat \<Rightarrow> Socket \<Rightarrow> Bus" where
  "Bus_idle sl n sock = \<lparr>idx = 0, socket = sock, frames = replicate n Frame_new, current_frame = 0,
     slaves = sl, events = []\<rparr>"

text \<open>The reply of the slave at station address \<open>a\<close> to a read of its register \<open>ado\<close>.\<close>

definition answer_to :: "u16 \<Rightarrow> u16 \<Rightarrow> u8 list \<Rightarrow> u16 \<Rightarrow> Datagram" where
  "answer_to a ado payload n =
     \<lparr>dg_index = 0, dg_command = FPRD, dg_address = createAddress a ado, dg_payload = payload, dg_wkc = n\<rparr>"

definition eeprom_status :: "u16 \<Rightarrow> u16 \<Rightarrow> Datagram" where
  "eeprom_status a st = answer_to a reg_EEPROM_CONTROL (le16 st) 1"

definition mailbox_flags :: "Slave \<Rightarrow> bool \<times> bool" where
  "mailbox_flags s = (read_available (mailbox s), write_available (mailbox s))"

text \<open>The frames handed to the socket and the pauses made, in order, as \<open>events\<close> records them.\<close>

fun written :: "Event list \<Rightarrow> Datagram list list" where
  "written [] = []"
| "written (Written ds # ev) = ds # written ev"
| "written (Slept us # ev) = written ev"

fun pauses :: "Event list \<Rightarrow> u32 list" where
  "pauses [] = []"
| "pauses (Written ds # ev) = pauses ev"
| "pauses (Slept us # ev) = us # pauses ev"

text \<open>What every operation leaves alone: the slave vector and the number of frames.\<close>

definition same_shape :: "Bus \<Rightarrow> Bus \<Rightarrow> bool" where
  "same_shape b b' = (slaves b' = slaves b \<and> length (frames b') = length (frames b))"

text \<open>
  One slave at 0x1000 that stays in INIT: the link answers the PRE_OP request (one slave
  wrote), the two mailbox status reads (both buffers empty) and the read of AL_STATUS (state
  INIT, 0x01).
\<close>

definition slave_stays_in_INIT :: Bus where
  "slave_stays_in_INIT =
     Bus_idle [slave_at 0x1000] 2
       [Reply [\<lparr>dg_index = 0, dg_command = BWR, dg_address = createAddress 0 reg_AL_CONTROL,
                 dg_payload = [0x12, 0x00], dg_wkc = 1\<rparr>],
        Reply [answer_to 0x1000 (reg_SYNC_MANAGER_0 + reg_SM_STATS) [0x00] 1,
               answer_to 0x1000 (reg_SYNC_MANAGER_1 + reg_SM_STATS) [0x00] 1],
        Reply [answer_to 0x1000 reg_AL_STATUS [0x01, 0x00] 1]]"

text \<open>
  The state of the frames while a batch is filled by \<open>addDatagram\<close>: the frames before the
  cursor are full, the frame under the cursor holds at most 15 datagrams, the frames after it
  are empty, and no payload is longer than 64 bytes (so that free space never decides).
  \<open>batch\<close> is what the frames hold, in issue order; a controller is \<open>idle\<close> when its frames
  are empty and the cursor is on the first.
\<close>

definition small :: "Frame \<Rightarrow> bool" where
  "small f = list_all (\<lambda>d. length (dg_payload d) \<le> 64) (datagrams f)"

definition batching :: "Bus \<Rightarrow> bool" where
  "batching b =
     (current_frame b < length (frames b)
      \<and> list_all (\<lambda>f. datagramCounter f = MAX_ETHERCAT_DATAGRAMS) (take (current_frame b) (frames b))
      \<and> datagramCounter (frames b ! current_frame b) \<le> MAX_ETHERCAT_DATAGRAMS
      \<and> list_all (\<lambda>f. datagrams f = []) (drop (Suc (current_frame b)) (frames b))
      \<and> list_all small (frames b))"

definition batch :: "Bus \<Rightarrow> Datagram list" where
  "batch b = concat (map datagrams (frames b))"

definition idle :: "Bus \<Rightarrow> bool" where
  "idle b = (current_frame b = 0 \<and> frames b \<noteq> [] \<and> list_all (\<lambda>f. datagrams f = []) (frames b))"

definition datagram :: "u8 \<Rightarrow> Command \<Rightarrow> u32 \<Rightarrow> u8 list \<Rightarrow> Datagram" where
  "datagram index cmd addr bytes =
     \<lparr>dg_index = index, dg_command = cmd, dg_address = addr, dg_payload = bytes, dg_wkc = 0\<rparr>"

text \<open>The datagram that the addressing loop of \<open>init\<close> issues for the slave at position \<open>i\<close>.\<close>

definition set_station_address :: "u8 \<Rightarrow> nat \<Rightarrow> Datagram" where
  "set_station_address index i =
     datagram index APRW (createAddress (0 - of_nat i) reg_STATION_ADDR) (le16 (0x1000 + of_nat i))"

text \<open>
  A link with two slaves that answers every frame of a bring-up: the discovery and the ten
  broadcasts of the reset (working counter 2), the addressing frame, for each of the eight
  EEPROM words the read command, one readiness poll (both ready) and the data (zero), the
  PRE_OP request, the mailbox statuses (empty), and the state of each slave (PRE_OP).
\<close>

definition two_slaves_link :: Socket where
  "two_slaves_link =
     replicate 11 (Reply [reply_wkc 2])
     @ [Reply [(set_station_address 11 0)\<lparr>dg_wkc := 1\<rparr>, (set_station_address 11 1)\<lparr>dg_wkc := 1\<rparr>]]
     @ concat (replicate 8
         [Reply [reply_wkc 2],
          Reply [eeprom_status 0x1000 0, eeprom_status 0x1001 0],
          Reply [answer_to 0x1000 reg_EEPROM_DATA [0, 0, 0, 0] 1, answer_to 0x1001 reg_EEPROM_DATA [0, 0, 0, 0] 1]])
     @ [Reply [reply_wkc 2],
        Reply [answer_to 0x1000 (reg_SYNC_MANAGER_0 + reg_SM_STATS) [0] 1,
               answer_to 0x1000 (reg_SYNC_MANAGER_1 + reg_SM_STATS) [0] 1,
               answer_to 0x1001 (reg_SYNC_MANAGER_0 + reg_SM_STATS) [0] 1,
               answer_to 0x1001 (reg_SYNC_MANAGER_1 + reg_SM_STATS) [0] 1],
        Reply [answer_to 0x1000 reg_AL_STATUS [0x02, 0] 1],
        Reply [answer_to 0x1001 reg_AL_STATUS [0x02, 0] 1]]"




text \<open>
  The link of \<open>two_slaves_link\<close>, but both slaves stay in INIT: the two reads of AL_STATUS
  that end the bring-up are answered with state 0x01.
\<close>

definition slaves_stay_in_INIT_link :: Socket where
  "slaves_stay_in_INIT_link =
     take 38 two_slaves_link
     @ [Reply [answer_to 0x1000 reg_AL_STATUS [0x01, 0] 1],
        Reply [answer_to 0x1001 reg_AL_STATUS [0x01, 0] 1]]"

section \<open>The session counter\<close>

lemma unat_nextCounter: "unat ((x::u8) mod 7 + 1) = unat x mod 7 + 1"
proof -
  have m: "unat (x mod 7) = unat x mod 7" by (simp add: unat_mod)
  have "unat x mod 7 < 7" by simp
  then have "(unat x mod 7 + 1) mod 256 = unat x mod 7 + 1" by simp
  then show ?thesis by (simp add: unat_word_ariths m)
qed

lemma nextCounter_value: "fst (nextCounter m) = counter m mod 7 + 1"
  by (simp add: nextCounter_def Let_def)

lemma nextCounter_stored: "counter (snd (nextCounter m)) = fst (nextCounter m)"
  by (simp add: nextCounter_def Let_def)

lemma nextCounter_range: "1 \<le> fst (nextCounter m) \<and> fst (nextCounter m) \<le> 7"
  by (simp add: nextCounter_value word_le_nat_alt unat_nextCounter)

lemma nextCounter_nonzero: "fst (nextCounter m) \<noteq> 0"
proof
  assume "fst (nextCounter m) = 0"
  then have "unat (fst (nextCounter m)) = 0" by simp
  then show False by (simp add: nextCounter_value unat_nextCounter)
qed

lemma mod7_step: "((x::nat) mod 7 + 1) mod 7 \<noteq> x mod 7"
proof -
  define r where "r = x mod 7"
  have r: "r < 7" by (simp add: r_def)
  have "(r + 1) mod 7 \<noteq> r"
  proof (cases "r = 6")
    case True
    then show ?thesis by simp
  next
    case False
    with r have "r + 1 < 7" by simp
    then have "(r + 1) mod 7 = r + 1" by (rule mod_less)
    then show ?thesis by simp
  qed
  then show ?thesis unfolding r_def .
qed

lemma nextCounter_changes: "fst (nextCounter (snd (nextCounter m))) \<noteq> fst (nextCounter m)"
proof -
  have "unat (fst (nextCounter (snd (nextCounter m)))) \<noteq> unat (fst (nextCounter m))"
    using mod7_step [of "unat (counter m)"]
    by (simp add: nextCounter_def Let_def unat_nextCounter)
  then show ?thesis by auto
qed

lemma nextCounter_calls_Suc:
  "nextCounter_calls (Suc n) m = fst (nextCounter m) # nextCounter_calls n (snd (nextCounter m))"
  by (simp split: prod.splits)

lemma nextCounter_calls_length: "length (nextCounter_calls n m) = n"
  by (induction n arbitrary: m) (simp_all split: prod.splits)

text \<open>
  C9: whatever the counter of the mailbox (0 at first), the \<open>k\<close>-th value returned by
  successive calls of \<open>nextCounter\<close> lies between 1 and 7 and is never 0; the first one is
  \<open>counter mod 7 + 1\<close>, each later one is that function of the value before, and differs
  from it.
\<close>

theorem nextCounter_law:
  assumes "k < n"
  shows "1 \<le> nextCounter_calls n m ! k \<and> nextCounter_calls n m ! k \<le> 7
       \<and> nextCounter_calls n m ! k \<noteq> 0
       \<and> nextCounter_calls n m ! 0 = counter m mod 7 + 1
       \<and> (Suc k < n \<longrightarrow> nextCounter_calls n m ! Suc k = nextCounter_calls n m ! k mod 7 + 1
                      \<and> nextCounter_calls n m ! Suc k \<noteq> nextCounter_calls n m ! k)"
  using assms
proof (induction n arbitrary: m k)
  case 0
  then show ?case by simp
next
  case (Suc n)
  define c where "c = fst (nextCounter m)"
  define m' where "m' = snd (nextCounter m)"
  have eq: "nextCounter_calls (Suc n) m = c # nextCounter_calls n m'"
    by (simp add: c_def m'_def)
  have c: "c = counter m mod 7 + 1" "1 \<le> c" "c \<le> 7" "c \<noteq> 0"
    using nextCounter_range [of m] nextCounter_nonzero [of m]
    by (simp_all add: c_def nextCounter_value)
  have m': "counter m' = c" "fst (nextCounter m') \<noteq> c"
    using nextCounter_changes [of m] by (simp_all add: c_def m'_def nextCounter_stored)
  show ?case
  proof (cases k)
    case 0
    show ?thesis
    proof (cases "0 < n")
      case True
      from Suc.IH [OF True, of m'] m'
      have "nextCounter_calls n m' ! 0 = c mod 7 + 1" "nextCounter_calls n m' ! 0 \<noteq> c"
        by (simp_all add: nextCounter_value)
      then show ?thesis
        using c(2-4) True by (simp add: eq 0 c(1) [symmetric] del: nextCounter_calls.simps)
    next
      case False
      have "nextCounter_calls (Suc n) m ! 0 = c" by (simp add: eq del: nextCounter_calls.simps)
      then show ?thesis
        using c(2-4) False by (simp add: 0 c(1) [symmetric] del: nextCounter_calls.simps)
    qed
  next
    case (Suc j)
    then have "j < n" using Suc.prems by simp
    from Suc.IH [OF this, of m'] show ?thesis
      by (auto simp add: eq Suc c(1) [symmetric] simp del: nextCounter_calls.simps)
  qed
qed

theorem nextCounter_law_witness:
  "nextCounter_calls 9 Mailbox_new = [1, 2, 3, 4, 5, 6, 7, 1, 2]
   \<and> 1 \<le> nextCounter_calls 9 Mailbox_new ! 6 \<and> nextCounter_calls 9 Mailbox_new ! 6 \<le> 7
   \<and> nextCounter_calls 9 Mailbox_new ! 7 \<noteq> nextCounter_calls 9 Mailbox_new ! 6"
proof -
  have v: "nextCounter_calls 9 Mailbox_new = [1, 2, 3, 4, 5, 6, 7, 1, 2]"
    by code_simp
  have k: "(6::nat) < 9" by simp
  from nextCounter_law [OF k, of Mailbox_new] show ?thesis
    by (simp add: v)
qed

section \<open>Message statuses\<close>

text \<open>
  C3: the statuses for a wrong service, an unknown service and a client buffer too small
  are pairwise distinct, and so are those for a wrong service, an unknown service and a bad
  toggle bit; but \<open>COE_CLIENT_BUFFER_TOO_SMALL\<close> and \<open>COE_SEGMENT_BAD_TOGGLE_BIT\<close> are the
  same value 0x103: a reader of the status cannot tell the two failures apart.
\<close>

theorem MessageStatus_collision:
  "COE_CLIENT_BUFFER_TOO_SMALL = COE_SEGMENT_BAD_TOGGLE_BIT
   \<and> distinct [SUCCESS, RUNNING, COE_WRONG_SERVICE, COE_UNKNOWN_SERVICE, COE_CLIENT_BUFFER_TOO_SMALL]
   \<and> distinct [SUCCESS, RUNNING, COE_WRONG_SERVICE, COE_UNKNOWN_SERVICE, COE_SEGMENT_BAD_TOGGLE_BIT]"
  by (simp add: SUCCESS_def RUNNING_def COE_WRONG_SERVICE_def COE_UNKNOWN_SERVICE_def
      COE_CLIENT_BUFFER_TOO_SMALL_def COE_SEGMENT_BAD_TOGGLE_BIT_def)

section \<open>Broadcasts and discovery\<close>

lemma Frame_writeThenRead_fails:
  "link_fails sock \<Longrightarrow> is_error (fst (Frame_writeThenRead f sock))"
  by (auto simp: link_fails_def Frame_writeThenRead_def is_error_def EERROR_def
      split: list.splits Response.splits)

lemma broadcastRead_fails:
  assumes "link_fails (socket b)" "frames b \<noteq> []"
  shows "map_option fst (broadcastRead ADO n b) = Some 0"
  using assms Frame_writeThenRead_fails [of "socket b"]
  apply (simp add: broadcastRead_def addDatagram_at_def writeThenRead_at_def split: prod.splits)
  by (metis fst_conv)

lemma broadcastWrite_fails:
  assumes "link_fails (socket b)" "frames b \<noteq> []"
  shows "map_option fst (broadcastWrite ADO bytes b) = Some 0"
  using assms Frame_writeThenRead_fails [of "socket b"]
  apply (simp add: broadcastWrite_def addDatagram_at_def writeThenRead_at_def split: prod.splits)
  by (metis fst_conv)

lemma broadcastRead_reply:
  assumes "socket b = Reply (d # ds) # rest" "frames b \<noteq> []"
  shows "\<exists>b'. broadcastRead ADO n b = Some (dg_wkc d, b') \<and> slaves b' = slaves b
     \<and> length (frames b') = length (frames b) \<and> socket b' = rest \<and> idx b' = idx b + 1"
  using assms
  by (simp add: broadcastRead_def addDatagram_at_def writeThenRead_at_def Frame_writeThenRead_def
      nextDatagram_at_def Frame_nextDatagram_def is_error_def ESUCCESS_def)

lemma detectSlaves_reply:
  assumes "socket b = Reply (d # ds) # rest" "frames b \<noteq> []"
  shows "\<exists>b'. detectSlaves b =
           Some (if dg_wkc d = 0 then EERROR ''No slaves on the bus'' else ESUCCESS, b')
     \<and> (dg_wkc d \<noteq> 0 \<longrightarrow> length (slaves b') = unat (dg_wkc d)
           \<and> length (frames b') = length (frames b) + (needed_frames (dg_wkc d) - 1))"
  using broadcastRead_reply [OF assms, of reg_TYPE 1]
  by (auto simp: detectSlaves_def resize_def)

lemma div15_up:
  assumes "(m::nat) mod 15 \<noteq> 0"
  shows "(m + 15 - 1) div 15 = m div 15 + 1"
proof -
  define q where "q = m div 15"
  define r where "r = m mod 15"
  have m: "m = r + 15 * q" by (simp add: q_def r_def)
  have r: "r < 15" "r \<noteq> 0" using assms by (simp_all add: r_def)
  then have "m + 15 - 1 = (r - 1) + 15 * (q + 1)" using m by simp
  then have "(m + 15 - 1) div 15 = ((r - 1) + 15 * (q + 1)) div 15" by (rule arg_cong)
  also have "\<dots> = (q + 1) + (r - 1) div 15" by (rule div_mult_self2) simp
  also have "(r - 1) div 15 = 0" using r by (intro div_less) simp
  finally show ?thesis by (simp add: q_def)
qed

lemma ceil_div_15: "ceil_div (2 * n) 15 * 2 + (if 15 dvd n then 2 else 0) = (n * 2 div 15 + 1) * 2"
proof (cases "15 dvd n")
  case True
  then obtain k where "n = 15 * k" by (auto simp: dvd_def)
  then show ?thesis by (simp add: ceil_div_def)
next
  case False
  have "coprime (15::nat) 2" by (simp add: coprime_iff_gcd_eq_1 gcd_nat.simps)
  then have "\<not> 15 dvd 2 * n" using False by (simp add: coprime_dvd_mult_right_iff)
  then have "(2 * n) mod 15 \<noteq> 0" by (simp add: dvd_eq_mod_eq_0)
  then have "(2 * n + 15 - 1) div 15 = 2 * n div 15 + 1" by (rule div15_up)
  then have "ceil_div (2 * n) 15 = n * 2 div 15 + 1"
    unfolding ceil_div_def by (simp only: mult.commute)
  then show ?thesis using False by simp
qed

text \<open>
  C5 (as amended): when \<open>N \<ge> 1\<close> slaves answer the discovery broadcast of a controller just
  constructed, \<open>detectSlaves\<close> succeeds, the slave vector has \<open>N\<close> entries and the
  controller holds \<open>(2 * N div 15 + 1) * 2\<close> frames: that is \<open>ceil (2 * N / 15) * 2\<close> when
  \<open>N\<close> is not a multiple of 15, and two frames more when it is.
\<close>

theorem detectSlaves_frame_count:
  assumes "dg_wkc d \<noteq> 0"
  shows "\<exists>b'. detectSlaves (Bus_new (Reply (d # ds) # rest)) = Some (ESUCCESS, b')
     \<and> length (slaves b') = unat (dg_wkc d)
     \<and> length (frames b') = (2 * unat (dg_wkc d) div 15 + 1) * 2
     \<and> length (frames b') = ceil_div (2 * unat (dg_wkc d)) 15 * 2 + (if 15 dvd unat (dg_wkc d) then 2 else 0)"
proof -
  have s: "socket (Bus_new (Reply (d # ds) # rest)) = Reply (d # ds) # rest"
    and f: "frames (Bus_new (Reply (d # ds) # rest)) \<noteq> []"
    and l: "length (frames (Bus_new (Reply (d # ds) # rest))) = 1"
    by (simp_all add: Bus_new_def)
  from detectSlaves_reply [OF s f] assms l obtain b'
    where b': "detectSlaves (Bus_new (Reply (d # ds) # rest)) = Some (ESUCCESS, b')"
      "length (slaves b') = unat (dg_wkc d)"
      "length (frames b') = (unat (dg_wkc d) * 2 div 15 + 1) * 2"
    by (auto simp: needed_frames_def MAX_ETHERCAT_DATAGRAMS_def)
  have "length (frames b') = (2 * unat (dg_wkc d) div 15 + 1) * 2"
    using b'(3) by (simp add: mult.commute)
  moreover have "length (frames b') = ceil_div (2 * unat (dg_wkc d)) 15 * 2 + (if 15 dvd unat (dg_wkc d) then 2 else 0)"
    using b'(3) ceil_div_15 [of "unat (dg_wkc d)"] by simp
  ultimately show ?thesis using b'(1,2) by blast
qed

theorem detectSlaves_frame_count_witness:
  "\<exists>b'. detectSlaves (Bus_new [Reply [reply_wkc 3]]) = Some (ESUCCESS, b')
     \<and> length (slaves b') = 3 \<and> length (frames b') = 2 \<and> ceil_div (2 * 3) 15 * 2 = 2"
proof -
  have w: "dg_wkc (reply_wkc 3) \<noteq> 0" by (simp add: reply_wkc_def)
  from detectSlaves_frame_count [OF w, of "[]" "[]"] show ?thesis
    by (simp add: reply_wkc_def ceil_div_def)
qed

text \<open>
  C5 as stated fails for 15 slaves: the controller then holds 6 frames, and
  \<open>ceil (30 / 15) * 2\<close> is 4.
\<close>

theorem detectSlaves_frame_count_counterexample:
  "map_option (\<lambda>(err, b'). (err, length (slaves b'), length (frames b')))
     (detectSlaves (Bus_new [Reply [reply_wkc 15]])) = Some (ESUCCESS, 15, 6)
   \<and> ceil_div (2 * 15) 15 * 2 = 4"
  by code_simp

text \<open>
  C10: when the link fails under \<open>broadcastRead\<close> or \<open>broadcastWrite\<close>, the working counter
  returned is 0 and the failure is not passed on; \<open>detectSlaves\<close> then returns the error
  "No slaves on the bus", which is also what it returns on a bus \<open>c\<close> whose link works and
  on which no slave answered (working counter 0).
\<close>

theorem link_failure_reported_as_no_slaves:
  assumes "link_fails (socket b)" and "frames b \<noteq> []"
    and "socket c = Reply (d # ds) # rest" and "dg_wkc d = 0" and "frames c \<noteq> []"
  shows "map_option fst (broadcastRead ADO n b) = Some 0
     \<and> map_option fst (broadcastWrite ADO bytes b) = Some 0
     \<and> map_option fst (detectSlaves b) = Some (EERROR ''No slaves on the bus'')
     \<and> map_option fst (detectSlaves c) = map_option fst (detectSlaves b)"
proof -
  have r: "map_option fst (broadcastRead reg_TYPE 1 b) = Some 0"
    by (rule broadcastRead_fails [OF assms(1,2)])
  then have db: "map_option fst (detectSlaves b) = Some (EERROR ''No slaves on the bus'')"
    by (auto simp: detectSlaves_def split: Option.bind_splits)
  have dc: "map_option fst (detectSlaves c) = Some (EERROR ''No slaves on the bus'')"
    using detectSlaves_reply [OF assms(3,5)] assms(4) by auto
  have rb: "map_option fst (broadcastRead ADO n b) = Some 0"
    by (rule broadcastRead_fails [OF assms(1,2)])
  have wb: "map_option fst (broadcastWrite ADO bytes b) = Some 0"
    by (rule broadcastWrite_fails [OF assms(1,2)])
  show ?thesis by (simp only: rb wb db dc simp_thms)
qed

theorem link_failure_reported_as_no_slaves_witness:
  "link_fails (socket (Bus_new [Failure ''send'']))
   \<and> map_option fst (broadcastRead reg_TYPE 1 (Bus_new [Failure ''send''])) = Some 0
   \<and> map_option fst (broadcastWrite reg_TYPE [0, 0] (Bus_new [Failure ''send''])) = Some 0
   \<and> map_option fst (detectSlaves (Bus_new [Failure ''send''])) = Some (EERROR ''No slaves on the bus'')
   \<and> map_option fst (detectSlaves (Bus_new [Reply [reply_wkc 0]])) = Some (EERROR ''No slaves on the bus'')"
proof -
  have 1: "link_fails (socket (Bus_new [Failure ''send'']))"
    by (simp add: link_fails_def Bus_new_def)
  have 2: "frames (Bus_new [Failure ''send'']) \<noteq> []" by (simp add: Bus_new_def)
  have 3: "socket (Bus_new [Reply [reply_wkc 0]]) = Reply (reply_wkc 0 # []) # []"
    by (simp add: Bus_new_def)
  have 4: "dg_wkc (reply_wkc 0) = 0" by (simp add: reply_wkc_def)
  have 5: "frames (Bus_new [Reply [reply_wkc 0]]) \<noteq> []" by (simp add: Bus_new_def)
  from link_failure_reported_as_no_slaves [OF 1 2 3 4 5, where ADO = reg_TYPE and n = 1 and bytes = "[0, 0]"]
  show ?thesis using 1 by (simp add: reg_TYPE_def reg_AL_CONTROL_def)
qed

section \<open>Mailbox availability\<close>

text \<open>
  C1 (\<open>read_available\<close> and \<open>write_available\<close> of Bus.h are the \<open>can_read\<close> and
  \<open>can_write\<close> of the claim): \<open>checkMailboxes\<close> on one slave, with both replies answered
  (working counter 1). When SM0 and SM1 both report a full buffer (bit 0x08), the slave ends
  with \<open>read_available\<close> and \<open>write_available\<close> both true, where the claim wants
  \<open>can_write\<close> false; when only SM1 is full, it ends with \<open>read_available\<close> false and
  \<open>write_available\<close> true, where the claim wants \<open>can_read\<close> true. The decoder gives the
  first reply (SM0) to \<open>read_available\<close> and the second (SM1) to \<open>write_available\<close>, each
  as the "full" bit itself.
\<close>

theorem checkMailboxes_flags_swapped:
  "map_option (map mailbox_flags \<circ> fst)
     (checkMailboxes [slave_at 0x1000]
        (Bus_idle [slave_at 0x1000] 2
           [Reply [answer_to 0x1000 (reg_SYNC_MANAGER_0 + reg_SM_STATS) [0x08] 1,
                   answer_to 0x1000 (reg_SYNC_MANAGER_1 + reg_SM_STATS) [0x08] 1]]))
   = Some [(True, True)]
   \<and> map_option (map mailbox_flags \<circ> fst)
     (checkMailboxes [slave_at 0x1000]
        (Bus_idle [slave_at 0x1000] 2
           [Reply [answer_to 0x1000 (reg_SYNC_MANAGER_0 + reg_SM_STATS) [0x00] 1,
                   answer_to 0x1000 (reg_SYNC_MANAGER_1 + reg_SM_STATS) [0x08] 1]]))
   = Some [(False, True)]"
  by code_simp

section \<open>The datagram index\<close>

text \<open>
  C4: two datagrams batched one after the other by \<open>addDatagram\<close> on a controller just
  constructed both carry index 0, and \<open>idx\<close> is still 0 afterwards; the datagram that
  \<open>getCurrentState\<close> writes carries the literal index 0x55. Only the broadcast helpers
  advance the counter.
\<close>

theorem datagram_index_not_advanced:
  "map_option (\<lambda>b. (map dg_index (datagrams (frames b ! 0)), idx b))
     (Option.bind (addDatagram FPRD (createAddress 0x1000 reg_EEPROM_CONTROL) (null_data 2) (Bus_new []))
        (addDatagram FPRD (createAddress 0x1001 reg_EEPROM_CONTROL) (null_data 2)))
   = Some ([0, 0], 0)
   \<and> map_option (\<lambda>(s, b). events b)
     (getCurrentState (slave_at 0x1000) (Bus_new [Reply [answer_to 0x1000 reg_AL_STATUS [0x02, 0x00] 1]]))
   = Some [Written [\<lparr>dg_index = 0x55, dg_command = FPRD, dg_address = createAddress 0x1000 reg_AL_STATUS,
                     dg_payload = [0, 0], dg_wkc = 0\<rparr>]]"
  by code_simp

section \<open>EEPROM readiness\<close>

text \<open>
  C6: sixteen slaves, six frames (what \<open>detectSlaves\<close> reserves for sixteen). The poll
  batches fifteen reads into the first frame and the sixteenth into the second. The first
  fifteen slaves answer "ready", the sixteenth answers "busy" (0x8000): \<open>areEepromReady\<close>
  returns true at the first iteration, after one pause of 200 microseconds, since its
  do-while stops at the last datagram of the first frame (\<open>multiple\<close> clear) and never
  reads the reply of the sixteenth slave. With two slaves (one frame) the same busy answer
  is seen: \<open>readEeprom\<close> polls ten times, 200 microseconds before each, leaves the frames
  empty and fails with "eeprom not ready - timeout".
\<close>

theorem areEepromReady_misses_second_frame:
  "map_option (\<lambda>(ready, b). (ready, events b))
     (areEepromReady
        (Bus_idle (slaves_from_0x1000 16) 6
           [Reply (map (\<lambda>i. eeprom_status (0x1000 + of_nat i) 0x0000) [0..<15]),
            Reply [eeprom_status 0x100F 0x8000]]))
   = Some (True,
       [Slept 200,
        Written (map (\<lambda>i. \<lparr>dg_index = 0, dg_command = FPRD,
                        dg_address = createAddress (0x1000 + of_nat i) reg_EEPROM_CONTROL,
                        dg_payload = [0, 0], dg_wkc = 0\<rparr>) [0..<15]),
        Written [\<lparr>dg_index = 0, dg_command = FPRD,
                   dg_address = createAddress 0x100F reg_EEPROM_CONTROL,
                   dg_payload = [0, 0], dg_wkc = 0\<rparr>]])
   \<and> map_option (\<lambda>(err, b). (err, pauses (events b), length (written (events b)), batch b))
     (readEeprom eeprom_VENDOR_ID store_vendor_id
        (Bus_idle (slaves_from_0x1000 2) 2
           (Reply [reply_wkc 2]
            # replicate 10 (Reply [eeprom_status 0x1000 0x0000, eeprom_status 0x1001 0x8000]))))
   = Some (EERROR ''eeprom not ready - timeout'', replicate 10 200, 11, [])"
  by code_simp

section \<open>Effects of the operations\<close>

lemma written_append [simp]: "written (ev @ ev') = written ev @ written ev'"
  by (induction ev rule: written.induct) simp_all

lemma pauses_append [simp]: "pauses (ev @ ev') = pauses ev @ pauses ev'"
  by (induction ev rule: pauses.induct) simp_all

lemma same_shape_refl [simp]: "same_shape b b"
  by (simp add: same_shape_def)

lemma same_shape_trans: "same_shape a b \<Longrightarrow> same_shape b c \<Longrightarrow> same_shape a c"
  by (simp add: same_shape_def)

lemma addDatagram_at_effect:
  assumes "addDatagram_at k i cmd addr bytes b = Some b'"
  shows "same_shape b b' \<and> events b' = events b \<and> socket b' = socket b \<and> idx b' = idx b
         \<and> current_frame b' = current_frame b"
  using assms by (auto simp: addDatagram_at_def same_shape_def split: if_splits)

lemma writeThenRead_at_effect:
  assumes "writeThenRead_at k b = Some (err, b')"
  shows "same_shape b b' \<and> (\<exists>ds. events b' = events b @ [Written ds]) \<and> idx b' = idx b
         \<and> current_frame b' = current_frame b"
  using assms by (auto simp: writeThenRead_at_def same_shape_def split: if_splits prod.splits)

lemma nextDatagram_at_effect:
  assumes "nextDatagram_at k b = Some (a, b')"
  shows "same_shape b b' \<and> events b' = events b \<and> socket b' = socket b \<and> idx b' = idx b
         \<and> current_frame b' = current_frame b"
  using assms by (auto simp: nextDatagram_at_def same_shape_def split: if_splits option.splits)

lemma nextDatagram_effect:
  assumes "nextDatagram b = Some (a, b')"
  shows "same_shape b b' \<and> events b' = events b \<and> socket b' = socket b \<and> idx b' = idx b"
  using assms nextDatagram_at_effect [of _ b a b']
    nextDatagram_at_effect [of _ "b\<lparr>current_frame := Suc (current_frame b)\<rparr>" a b']
  by (auto simp: nextDatagram_def same_shape_def split: if_splits)

lemma addDatagram_effect:
  assumes "addDatagram cmd addr bytes b = Some b'"
  shows "same_shape b b' \<and> events b' = events b \<and> socket b' = socket b \<and> idx b' = idx b"
  using assms addDatagram_at_effect [of _ "idx b" cmd addr bytes b b']
    addDatagram_at_effect [of _ "idx b" cmd addr bytes "b\<lparr>current_frame := Suc (current_frame b)\<rparr>" b']
  by (auto simp: addDatagram_def same_shape_def split: if_splits)

lemma broadcastWrite_effect:
  assumes "broadcastWrite ADO bytes b = Some (w, b')"
  shows "same_shape b b' \<and> (\<exists>ds. events b' = events b @ [Written ds])"
proof -
  from assms obtain b1 err b2 where 1: "addDatagram_at 0 (idx b) BWR (createAddress 0 ADO) bytes b = Some b1"
    and 2: "writeThenRead_at 0 b1 = Some (err, b2)"
    and 3: "(is_error err \<and> b' = b2) \<or> (\<exists>a b3. nextDatagram_at 0 b2 = Some (a, b3) \<and> b' = b3\<lparr>idx := idx b3 + 1\<rparr>)"
    by (auto simp: broadcastWrite_def split: Option.bind_splits if_splits)
  from 3 have "same_shape b2 b' \<and> events b' = events b2"
    using nextDatagram_at_effect [of 0 b2] by (auto simp: same_shape_def)
  with addDatagram_at_effect [OF 1] writeThenRead_at_effect [OF 2] show ?thesis
    by (auto simp: same_shape_def)
qed

lemma processFrames_from_effect:
  assumes "processFrames_from fs sock ev = (err, fs', sock', ev')"
  shows "length fs' = length fs \<and> pauses ev' = pauses ev
         \<and> length (written ev) \<le> length (written ev')
         \<and> length (written ev') \<le> length (written ev) + length fs"
  using assms
proof (induction fs arbitrary: sock ev err fs' sock' ev')
  case Nil
  then show ?case by simp
next
  case (Cons f fs)
  show ?case
  proof (cases "datagramCounter f = 0")
    case True
    with Cons.prems show ?thesis by simp
  next
    case False
    obtain e f1 s1 where w: "Frame_writeThenRead f sock = (e, f1, s1)"
      by (cases "Frame_writeThenRead f sock") auto
    show ?thesis
    proof (cases "is_error e")
      case True
      with Cons.prems False w show ?thesis by auto
    next
      case ok: False
      obtain e2 fs2 s2 ev2 where r: "processFrames_from fs s1 (ev @ [Written (datagrams f)]) = (e2, fs2, s2, ev2)"
        by (cases "processFrames_from fs s1 (ev @ [Written (datagrams f)])") auto
      from Cons.IH [OF r] Cons.prems False w ok r show ?thesis by auto
    qed
  qed
qed

lemma processFrames_effect:
  assumes "processFrames b = (err, b')"
  shows "same_shape b b' \<and> pauses (events b') = pauses (events b)
         \<and> length (written (events b)) \<le> length (written (events b'))
         \<and> length (written (events b')) \<le> length (written (events b)) + length (frames b)"
proof -
  obtain e fs s ev where r: "processFrames_from (frames b) (socket b) (events b) = (e, fs, s, ev)"
    by (cases "processFrames_from (frames b) (socket b) (events b)") auto
  from processFrames_from_effect [OF r] assms r show ?thesis
    by (auto simp: processFrames_def same_shape_def)
qed

lemma requestState_effect:
  assumes "requestState request b = Some (err, b')"
  shows "same_shape b b' \<and> (\<exists>ds. events b' = events b @ [Written ds])"
  using assms broadcastWrite_effect [of reg_AL_CONTROL _ b]
  by (auto simp: requestState_def split: Option.bind_splits if_splits)

lemma getCurrentState_effect:
  assumes "getCurrentState slave b = Some (state, b')"
  shows "same_shape b b' \<and> (\<exists>ds. events b' = events b @ [Written ds])"
proof -
  from assms obtain b1 err b2 where 1: "addDatagram_at 0 0x55 FPRD (createAddress (address slave) reg_AL_STATUS) (null_data 2) b = Some b1"
    and 2: "writeThenRead_at 0 b1 = Some (err, b2)"
    and 3: "(is_error err \<and> b' = b2) \<or> (\<exists>a. nextDatagram_at 0 b2 = Some (a, b'))"
    by (auto simp: getCurrentState_def split: Option.bind_splits if_splits)
  from 3 have "same_shape b2 b' \<and> events b' = events b2"
    using nextDatagram_at_effect [of 0 b2] by (auto simp: same_shape_def)
  with addDatagram_at_effect [OF 1] writeThenRead_at_effect [OF 2] show ?thesis
    by (auto simp: same_shape_def)
qed

lemma init_report_effect:
  assumes "init_report sl b = Some (states, b')"
  shows "same_shape b b' \<and> length states = length sl \<and> pauses (events b') = pauses (events b)
         \<and> length (written (events b')) = length (written (events b)) + length sl"
  using assms
proof (induction sl arbitrary: b states b')
  case Nil
  then show ?case by simp
next
  case (Cons slave rest)
  from Cons.prems obtain state b1 states' where 1: "getCurrentState slave b = Some (state, b1)"
    and 2: "init_report rest b1 = Some (states', b')" and 3: "states = state # states'"
    by (auto split: Option.bind_splits)
  from getCurrentState_effect [OF 1] Cons.IH [OF 2] 3 show ?case
    by (auto simp: same_shape_def)
qed

lemma checkMailboxes_request_effect:
  assumes "checkMailboxes_request sl b = Some b'"
  shows "same_shape b b' \<and> events b' = events b"
  using assms
proof (induction sl arbitrary: b)
  case Nil
  then show ?case by simp
next
  case (Cons slave rest)
  from Cons.prems obtain b1 b2 where 1: "addDatagram FPRD (createAddress (address slave) (reg_SYNC_MANAGER_0 + reg_SM_STATS)) (null_data 1) b = Some b1"
    and 2: "addDatagram FPRD (createAddress (address slave) (reg_SYNC_MANAGER_1 + reg_SM_STATS)) (null_data 1) b1 = Some b2"
    and 3: "checkMailboxes_request rest b2 = Some b'"
    by (auto split: Option.bind_splits)
  from addDatagram_effect [OF 1] addDatagram_effect [OF 2] Cons.IH [OF 3] show ?case
    by (auto simp: same_shape_def)
qed

lemma isFull_effect:
  assumes "isFull stable_value b = Some (r, b')"
  shows "same_shape b b' \<and> events b' = events b"
  using assms nextDatagram_effect [of b]
  by (auto simp: isFull_def split: Option.bind_splits if_splits)

lemma checkMailboxes_decode_effect:
  assumes "checkMailboxes_decode sl b = Some (sl', b')"
  shows "same_shape b b' \<and> events b' = events b \<and> map address sl' = map address sl"
  using assms
proof (induction sl arbitrary: b sl')
  case Nil
  then show ?case by simp
next
  case (Cons slave rest)
  from Cons.prems obtain r b1 w b2 rest' where 1: "isFull False b = Some (r, b1)"
    and 2: "isFull True b1 = Some (w, b2)"
    and 3: "checkMailboxes_decode rest b2 = Some (rest', b')"
    and 4: "sl' = slave\<lparr>mailbox := (mailbox slave)\<lparr>read_available := r, write_available := w\<rparr>\<rparr> # rest'"
    by (auto split: Option.bind_splits)
  from isFull_effect [OF 1] isFull_effect [OF 2] Cons.IH [OF 3] 4 show ?case
    by (auto simp: same_shape_def)
qed

lemma checkMailboxes_effect:
  assumes "checkMailboxes sl b = Some (sl', b')"
  shows "same_shape b b' \<and> map address sl' = map address sl \<and> pauses (events b') = pauses (events b)
         \<and> length (written (events b)) \<le> length (written (events b'))
         \<and> length (written (events b')) \<le> length (written (events b)) + length (frames b)"
proof -
  from assms obtain b1 err b2 where 1: "checkMailboxes_request sl b = Some b1"
    and 2: "processFrames b1 = (err, b2)"
    and 3: "(is_error err \<and> sl' = sl \<and> b' = b2) \<or> checkMailboxes_decode sl b2 = Some (sl', b')"
    by (auto simp: checkMailboxes_def split: Option.bind_splits prod.splits if_splits)
  from 3 have "same_shape b2 b' \<and> events b' = events b2 \<and> map address sl' = map address sl"
    using checkMailboxes_decode_effect [of sl b2 sl' b'] by auto
  with checkMailboxes_request_effect [OF 1] processFrames_effect [OF 2] show ?thesis
    by (auto simp: same_shape_def)
qed

section \<open>The PRE_OP request of init\<close>

text \<open>
  C2: after the PRE_OP request, \<open>init\<close> is to wait until every slave reports PRE_OP or ten
  seconds have passed. Bus.cc marks that wait as missing: the request is followed by one
  \<^verbatim>\<open>usleep(10000)\<close> and the comment \<^verbatim>\<open>//TODO: wait for state\<close>. On one slave that stays in
  INIT, \<open>init\<close> from the PRE_OP request on hands the request to the socket, pauses once for
  10000 microseconds, hands over the frame of the mailbox check and one read of AL_STATUS,
  and returns with the state it read, INIT. On a link with two slaves that stay in INIT the
  whole of \<open>init\<close> returns with both states INIT after pauses of 11600 microseconds in all
  (eight EEPROM polls of 200 and the one pause of 10000), far from ten seconds.
\<close>

theorem init_returns_without_waiting:
  "map_option (\<lambda>((err', states), b'). (err', states, events b')) (init_preop ESUCCESS slave_stays_in_INIT)
     = Some (EERROR ''Not implemented'', [State_INIT],
         [Written [datagram 0 BWR (createAddress 0 reg_AL_CONTROL) (le16 (ucast (State_PRE_OP OR State_ACK)))],
          Slept 10000,
          Written [datagram 1 FPRD (createAddress 0x1000 (reg_SYNC_MANAGER_0 + reg_SM_STATS)) [0],
                   datagram 1 FPRD (createAddress 0x1000 (reg_SYNC_MANAGER_1 + reg_SM_STATS)) [0]],
          Written [datagram 0x55 FPRD (createAddress 0x1000 reg_AL_STATUS) [0, 0]]])
   \<and> map_option (\<lambda>((err', states), b'). (err', states, pauses (events b'), socket b'))
       (init (Bus_new slaves_stay_in_INIT_link))
     = Some (EERROR ''Not implemented'', [State_INIT, State_INIT],
         [200, 200, 200, 200, 200, 200, 200, 200, 10000], [])
   \<and> State_INIT \<noteq> State_PRE_OP
   \<and> unat (sum_list [200, 200, 200, 200, 200, 200, 200, 200, 10000 :: u32]) = 11600"
proof -
  have 1: "map_option (\<lambda>((err', states), b'). (err', states, events b')) (init_preop ESUCCESS slave_stays_in_INIT)
     = Some (EERROR ''Not implemented'', [State_INIT],
         [Written [datagram 0 BWR (createAddress 0 reg_AL_CONTROL) (le16 (ucast (State_PRE_OP OR State_ACK)))],
          Slept 10000,
          Written [datagram 1 FPRD (createAddress 0x1000 (reg_SYNC_MANAGER_0 + reg_SM_STATS)) [0],
                   datagram 1 FPRD (createAddress 0x1000 (reg_SYNC_MANAGER_1 + reg_SM_STATS)) [0]],
          Written [datagram 0x55 FPRD (createAddress 0x1000 reg_AL_STATUS) [0, 0]]])"
    by code_simp
  have 2: "map_option (\<lambda>((err', states), b'). (err', states, pauses (events b'), socket b'))
       (init (Bus_new slaves_stay_in_INIT_link))
     = Some (EERROR ''Not implemented'', [State_INIT, State_INIT],
         [200, 200, 200, 200, 200, 200, 200, 200, 10000], [])"
    by code_simp
  have 3: "State_INIT \<noteq> State_PRE_OP
     \<and> unat (sum_list [200, 200, 200, 200, 200, 200, 200, 200, 10000 :: u32]) = 11600"
    by (simp add: State_INIT_def State_PRE_OP_def)
  from 1 2 3 show ?thesis by blast
qed

section \<open>Batching\<close>

lemma datagram_bytes_sum:
  "list_all (\<lambda>d. length (dg_payload d) \<le> 64) ds \<Longrightarrow> sum_list (map datagram_bytes ds) \<le> 76 * length ds"
  by (induction ds) (simp_all add: datagram_bytes_def)

lemma Frame_addDatagram_fits:
  assumes "datagramCounter f < MAX_ETHERCAT_DATAGRAMS" "small f" "length bytes \<le> 64"
  shows "Frame_addDatagram i cmd addr bytes f = f\<lparr>datagrams := datagrams f @ [datagram i cmd addr bytes]\<rparr>"
    and "\<not> freeSpace f < length bytes"
proof -
  have "sum_list (map datagram_bytes (datagrams f)) \<le> 76 * length (datagrams f)"
    using assms(2) by (simp add: small_def datagram_bytes_sum)
  also have "\<dots> \<le> 76 * 14"
    using assms(1) by (simp add: datagramCounter_def MAX_ETHERCAT_DATAGRAMS_def)
  finally have fs: "434 \<le> freeSpace f" by (simp add: freeSpace_def)
  with assms(3) show "\<not> freeSpace f < length bytes" by simp
  from fs assms(1,3) show "Frame_addDatagram i cmd addr bytes f = f\<lparr>datagrams := datagrams f @ [datagram i cmd addr bytes]\<rparr>"
    by (simp add: Frame_addDatagram_def datagram_def)
qed

lemma concat_full:
  "list_all (\<lambda>f. datagramCounter f = n) fs \<Longrightarrow> length (concat (map datagrams fs)) = n * length fs"
  by (induction fs) (simp_all add: datagramCounter_def)

lemma concat_empty:
  "list_all (\<lambda>f. datagrams f = []) fs \<Longrightarrow> concat (map datagrams fs) = []"
  by (induction fs) simp_all

lemma batch_split:
  assumes "k < length (frames b)"
  shows "batch b = concat (map datagrams (take k (frames b))) @ datagrams (frames b ! k)
                   @ concat (map datagrams (drop (Suc k) (frames b)))"
proof -
  have "frames b = take k (frames b) @ frames b ! k # drop (Suc k) (frames b)"
    using assms by (rule id_take_nth_drop)
  then have "batch b = concat (map datagrams (take k (frames b) @ frames b ! k # drop (Suc k) (frames b)))"
    by (simp add: batch_def)
  then show ?thesis by simp
qed

lemma batching_batch:
  assumes "batching b"
  shows "batch b = concat (map datagrams (take (current_frame b) (frames b)))
                   @ datagrams (frames b ! current_frame b)"
    and "length (batch b) = MAX_ETHERCAT_DATAGRAMS * current_frame b
                   + datagramCounter (frames b ! current_frame b)"
proof -
  from assms have k: "current_frame b < length (frames b)"
    and full: "list_all (\<lambda>f. datagramCounter f = MAX_ETHERCAT_DATAGRAMS) (take (current_frame b) (frames b))"
    and empty: "list_all (\<lambda>f. datagrams f = []) (drop (Suc (current_frame b)) (frames b))"
    by (simp_all add: batching_def)
  show 1: "batch b = concat (map datagrams (take (current_frame b) (frames b)))
                   @ datagrams (frames b ! current_frame b)"
    using batch_split [OF k] concat_empty [OF empty] by simp
  show "length (batch b) = MAX_ETHERCAT_DATAGRAMS * current_frame b
                   + datagramCounter (frames b ! current_frame b)"
    using concat_full [OF full] k by (simp add: 1 datagramCounter_def min_def)
qed

lemma addDatagram_batching:
  assumes inv: "batching b" and len: "length bytes \<le> 64"
    and room: "length (batch b) < MAX_ETHERCAT_DATAGRAMS * length (frames b)"
  shows "\<exists>b'. addDatagram cmd addr bytes b = Some b' \<and> batching b'
           \<and> batch b' = batch b @ [datagram (idx b) cmd addr bytes]
           \<and> same_shape b b' \<and> events b' = events b \<and> socket b' = socket b \<and> idx b' = idx b"
proof -
  define k where "k = current_frame b"
  define fs where "fs = frames b"
  define dg where "dg = datagram (idx b) cmd addr bytes"
  from inv have k: "k < length fs"
    and full: "list_all (\<lambda>f. datagramCounter f = MAX_ETHERCAT_DATAGRAMS) (take k fs)"
    and cur: "datagramCounter (fs ! k) \<le> MAX_ETHERCAT_DATAGRAMS"
    and empty: "list_all (\<lambda>f. datagrams f = []) (drop (Suc k) fs)"
    and sm: "list_all small fs"
    by (simp_all add: batching_def k_def fs_def)
  have small_dg: "small (f\<lparr>datagrams := datagrams f @ [dg]\<rparr>)" if "small f" for f
    using that len by (simp add: small_def dg_def datagram_def)
  have small_upd: "list_all small (fs[j := g])" if "small g" for j g
    using sm that set_update_subset_insert [of fs j g] by (auto simp: list_all_iff)
  show ?thesis
  proof (cases "datagramCounter (fs ! k) = MAX_ETHERCAT_DATAGRAMS")
    case False
    with cur have lt: "datagramCounter (fs ! k) < MAX_ETHERCAT_DATAGRAMS" by simp
    have smk: "small (fs ! k)" using sm k by (simp add: list_all_length)
    define f' where "f' = (fs ! k)\<lparr>datagrams := datagrams (fs ! k) @ [dg]\<rparr>"
    define b' where "b' = b\<lparr>frames := fs[k := f']\<rparr>"
    have add: "addDatagram cmd addr bytes b = Some b'"
      using Frame_addDatagram_fits(1) [OF lt smk len, of "idx b" cmd addr]
        Frame_addDatagram_fits(2) [OF lt smk len] False k
      by (simp add: addDatagram_def addDatagram_at_def k_def fs_def b'_def f'_def dg_def)
    have inv': "batching b'"
      using k full empty lt small_upd [OF small_dg [OF smk], of k]
      by (simp add: batching_def b'_def k_def [symmetric] f'_def datagramCounter_def)
    have "batch b' = batch b @ [dg]"
      using batching_batch(1) [OF inv'] batching_batch(1) [OF inv] k
      by (simp add: b'_def k_def [symmetric] fs_def [symmetric] f'_def)
    with add inv' show ?thesis
      by (auto simp: b'_def same_shape_def dg_def fs_def)
  next
    case True
    have "length (batch b) = MAX_ETHERCAT_DATAGRAMS * k + MAX_ETHERCAT_DATAGRAMS"
      using batching_batch(2) [OF inv] True by (simp add: k_def fs_def)
    with room have Sk: "Suc k < length fs"
      by (simp add: fs_def MAX_ETHERCAT_DATAGRAMS_def)
    have "datagrams (drop (Suc k) fs ! 0) = []"
      using empty Sk by (simp add: list_all_length del: nth_drop)
    then have e: "datagrams (fs ! Suc k) = []" using Sk by simp
    then have lt: "datagramCounter (fs ! Suc k) < MAX_ETHERCAT_DATAGRAMS"
      by (simp add: datagramCounter_def MAX_ETHERCAT_DATAGRAMS_def)
    have smk: "small (fs ! Suc k)" using sm Sk by (simp add: list_all_length)
    define g' where "g' = (fs ! Suc k)\<lparr>datagrams := datagrams (fs ! Suc k) @ [dg]\<rparr>"
    define b' where "b' = b\<lparr>current_frame := Suc k, frames := fs[Suc k := g']\<rparr>"
    have add: "addDatagram cmd addr bytes b = Some b'"
      using Frame_addDatagram_fits(1) [OF lt smk len, of "idx b" cmd addr] True k Sk
      by (simp add: addDatagram_def addDatagram_at_def k_def fs_def b'_def g'_def dg_def)
    have tk: "take (Suc k) fs = take k fs @ [fs ! k]" using k by (rule take_Suc_conv_app_nth)
    have "set (drop (Suc (Suc k)) fs) \<subseteq> set (drop (Suc k) fs)"
      by (rule set_drop_subset_set_drop) simp
    then have empty': "list_all (\<lambda>f. datagrams f = []) (drop (Suc (Suc k)) fs)"
      using empty by (auto simp: list_all_iff)
    have inv': "batching b'"
      using Sk full True empty' small_upd [OF small_dg [OF smk], of "Suc k"] e
      by (simp add: batching_def b'_def g'_def tk datagramCounter_def MAX_ETHERCAT_DATAGRAMS_def)
    have "batch b' = batch b @ [dg]"
      using batching_batch(1) [OF inv'] batching_batch(1) [OF inv] Sk e
      by (simp add: b'_def k_def [symmetric] fs_def [symmetric] g'_def tk)
    with add inv' show ?thesis
      by (auto simp: b'_def same_shape_def dg_def fs_def)
  qed
qed

lemma init_set_addresses_batching:
  assumes "batching b" and "length (batch b) + length sl \<le> MAX_ETHERCAT_DATAGRAMS * length (frames b)"
  shows "\<exists>sl' b'. init_set_addresses i sl b = Some (sl', b') \<and> batching b'
           \<and> batch b' = batch b @ map (set_station_address (idx b)) [i..<i + length sl]
           \<and> sl' = map2 (\<lambda>j s. s\<lparr>address := 0x1000 + of_nat j\<rparr>) [i..<i + length sl] sl
           \<and> same_shape b b' \<and> events b' = events b \<and> socket b' = socket b \<and> idx b' = idx b"
  using assms
proof (induction sl arbitrary: i b)
  case Nil
  then show ?case by simp
next
  case (Cons slave rest)
  have room: "length (batch b) < MAX_ETHERCAT_DATAGRAMS * length (frames b)"
    using Cons.prems(2) by simp
  have two: "length (le16 (0x1000 + of_nat i)) \<le> 64" by (simp add: le16_def)
  from addDatagram_batching [OF Cons.prems(1) two room, of APRW "createAddress (0 - of_nat i) reg_STATION_ADDR"]
  obtain b1 where 1: "addDatagram APRW (createAddress (0 - of_nat i) reg_STATION_ADDR) (le16 (0x1000 + of_nat i)) b = Some b1"
    and inv1: "batching b1"
    and batch1: "batch b1 = batch b @ [set_station_address (idx b) i]"
    and rest1: "same_shape b b1" "events b1 = events b" "socket b1 = socket b" "idx b1 = idx b"
    by (auto simp: set_station_address_def)
  have room1: "length (batch b1) + length rest \<le> MAX_ETHERCAT_DATAGRAMS * length (frames b1)"
    using Cons.prems(2) rest1(1) by (simp add: batch1 same_shape_def)
  from Cons.IH [OF inv1 room1, of "Suc i"]
  obtain sl' b' where 2: "init_set_addresses (Suc i) rest b1 = Some (sl', b')"
    and inv': "batching b'"
    and batch': "batch b' = batch b1 @ map (set_station_address (idx b1)) [Suc i..<Suc i + length rest]"
    and sl': "sl' = map2 (\<lambda>j s. s\<lparr>address := 0x1000 + of_nat j\<rparr>) [Suc i..<Suc i + length rest] rest"
    and rest': "same_shape b1 b'" "events b' = events b1" "socket b' = socket b1" "idx b' = idx b1"
    by blast
  have "i < Suc (i + length rest)" by simp
  then have upt: "[i..<Suc (i + length rest)] = i # [Suc i..<Suc (i + length rest)]"
    by (rule upt_conv_Cons)
  show ?case
    using 1 2 inv' batch' batch1 sl' rest1 rest'
    by (simp add: upt same_shape_def del: upt_Suc)
qed

lemma takeWhile_none:
  "list_all (\<lambda>x. \<not> P x) xs \<Longrightarrow> takeWhile P xs = []"
  by (cases xs) simp_all

lemma batching_written:
  assumes "batching b"
  shows "concat (map datagrams (takeWhile (\<lambda>f. datagramCounter f \<noteq> 0) (frames b))) = batch b"
proof -
  define k where "k = current_frame b"
  define fs where "fs = frames b"
  define P where "P = (\<lambda>f. datagramCounter f \<noteq> 0)"
  from assms have k: "k < length fs"
    and full: "list_all (\<lambda>f. datagramCounter f = MAX_ETHERCAT_DATAGRAMS) (take k fs)"
    and empty: "list_all (\<lambda>f. datagrams f = []) (drop (Suc k) fs)"
    by (simp_all add: batching_def k_def fs_def)
  have fs: "fs = take k fs @ fs ! k # drop (Suc k) fs" using k by (rule id_take_nth_drop)
  have "\<And>f. f \<in> set (take k fs) \<Longrightarrow> P f"
    using full by (auto simp: list_all_iff P_def MAX_ETHERCAT_DATAGRAMS_def)
  then have "takeWhile P (take k fs @ fs ! k # drop (Suc k) fs)
             = take k fs @ takeWhile P (fs ! k # drop (Suc k) fs)"
    by (rule takeWhile_append2)
  then have tw: "takeWhile P fs = take k fs @ takeWhile P (fs ! k # drop (Suc k) fs)"
    using fs by simp
  have none: "takeWhile P (drop (Suc k) fs) = []"
    using empty by (intro takeWhile_none) (auto simp: list_all_iff P_def datagramCounter_def)
  have "concat (map datagrams (takeWhile P (fs ! k # drop (Suc k) fs))) = datagrams (fs ! k)"
    by (simp add: none) (simp add: P_def datagramCounter_def)
  then have "concat (map datagrams (takeWhile P fs)) = concat (map datagrams (take k fs)) @ datagrams (fs ! k)"
    by (simp add: tw)
  then show ?thesis
    using batching_batch(1) [OF assms] by (simp add: P_def fs_def k_def)
qed

lemma processFrames_from_written:
  assumes "processFrames_from fs sock ev = (err, fs', sock', ev')"
  shows "\<exists>j. ev' = ev @ map (Written \<circ> datagrams) (take j fs)
           \<and> (\<not> is_error err \<longrightarrow> take j fs = takeWhile (\<lambda>f. datagramCounter f \<noteq> 0) fs)"
  using assms
proof (induction fs arbitrary: sock ev err fs' sock' ev')
  case Nil
  then show ?case by simp
next
  case (Cons f fs)
  show ?case
  proof (cases "datagramCounter f = 0")
    case True
    with Cons.prems have "ev' = ev @ map (Written \<circ> datagrams) (take 0 (f # fs))
        \<and> take 0 (f # fs) = takeWhile (\<lambda>f. datagramCounter f \<noteq> 0) (f # fs)"
      by auto
    then show ?thesis by blast
  next
    case False
    obtain e f1 s1 where w: "Frame_writeThenRead f sock = (e, f1, s1)"
      by (cases "Frame_writeThenRead f sock") auto
    show ?thesis
    proof (cases "is_error e")
      case True
      with Cons.prems False w have "ev' = ev @ map (Written \<circ> datagrams) (take 1 (f # fs)) \<and> is_error err"
        by auto
      then show ?thesis by blast
    next
      case ok: False
      obtain e2 fs2 s2 ev2 where r: "processFrames_from fs s1 (ev @ [Written (datagrams f)]) = (e2, fs2, s2, ev2)"
        by (cases "processFrames_from fs s1 (ev @ [Written (datagrams f)])") auto
      from Cons.IH [OF r] obtain j where j: "ev2 = (ev @ [Written (datagrams f)]) @ map (Written \<circ> datagrams) (take j fs)"
        "\<not> is_error e2 \<longrightarrow> take j fs = takeWhile (\<lambda>f. datagramCounter f \<noteq> 0) fs"
        by blast
      from Cons.prems False w ok r have "err = e2" "ev' = ev2" by auto
      with j False have "ev' = ev @ map (Written \<circ> datagrams) (take (Suc j) (f # fs))
        \<and> (\<not> is_error err \<longrightarrow> take (Suc j) (f # fs) = takeWhile (\<lambda>f. datagramCounter f \<noteq> 0) (f # fs))"
        by simp
      then show ?thesis by blast
    qed
  qed
qed

lemma processFrames_batch:
  assumes "batching b" and "processFrames b = (err, b')"
  shows "\<exists>ws. events b' = events b @ map Written ws \<and> (\<not> is_error err \<longrightarrow> concat ws = batch b)"
proof -
  obtain e fs s ev where r: "processFrames_from (frames b) (socket b) (events b) = (e, fs, s, ev)"
    by (cases "processFrames_from (frames b) (socket b) (events b)") auto
  from processFrames_from_written [OF r] obtain j
    where j: "ev = events b @ map (Written \<circ> datagrams) (take j (frames b))"
      "\<not> is_error e \<longrightarrow> take j (frames b) = takeWhile (\<lambda>f. datagramCounter f \<noteq> 0) (frames b)"
    by blast
  from assms(2) r have eq: "err = e" "events b' = ev" by (auto simp: processFrames_def)
  have "events b' = events b @ map Written (map datagrams (take j (frames b)))"
    using j(1) eq by simp
  moreover have "\<not> is_error err \<longrightarrow> concat (map datagrams (take j (frames b))) = batch b"
    using j(2) eq batching_written [OF assms(1)] by auto
  ultimately show ?thesis by blast
qed

section \<open>What the later stages of init leave alone\<close>

lemma broadcastRead_effect:
  assumes "broadcastRead ADO n b = Some (w, b')"
  shows "same_shape b b' \<and> frames b \<noteq> []"
proof -
  from assms obtain b1 err b2 where 1: "addDatagram_at 0 (idx b) BRD (createAddress 0 ADO) (null_data n) b = Some b1"
    and 2: "writeThenRead_at 0 b1 = Some (err, b2)"
    and 3: "(is_error err \<and> b' = b2) \<or> (\<exists>a b3. nextDatagram_at 0 b2 = Some (a, b3) \<and> b' = b3\<lparr>idx := idx b3 + 1\<rparr>)"
    by (auto simp: broadcastRead_def split: Option.bind_splits if_splits)
  from 3 have "same_shape b2 b'"
    using nextDatagram_at_effect [of 0 b2] by (auto simp: same_shape_def)
  moreover from 1 have "frames b \<noteq> []" by (auto simp: addDatagram_at_def split: if_splits)
  ultimately show ?thesis
    using addDatagram_at_effect [OF 1] writeThenRead_at_effect [OF 2] by (auto simp: same_shape_def)
qed

lemma detectSlaves_effect:
  assumes "detectSlaves b = Some (err, b')" and "\<not> is_error err"
  shows "\<exists>wkc. length (slaves b') = unat wkc
           \<and> length (frames b') = length (frames b) + (needed_frames wkc - 1) \<and> frames b \<noteq> []"
proof -
  from assms obtain wkc b1 where 1: "broadcastRead reg_TYPE 1 b = Some (wkc, b1)"
    and 2: "b' = b1\<lparr>slaves := resize (unat wkc) (slaves b1),
                    frames := frames b1 @ replicate (needed_frames wkc - 1) Frame_new\<rparr>"
    by (auto simp: detectSlaves_def is_error_def EERROR_def split: Option.bind_splits if_splits)
  from broadcastRead_effect [OF 1] 2 have "length (slaves b') = unat wkc
           \<and> length (frames b') = length (frames b) + (needed_frames wkc - 1) \<and> frames b \<noteq> []"
    by (simp add: same_shape_def resize_def)
  then show ?thesis by blast
qed

lemma resetSlaves_effect:
  assumes "resetSlaves b = Some (err, b')"
  shows "same_shape b b'"
proof -
  from assms obtain w1 b1 w2 b2 w3 b3 w4 b4 w5 b5 w6 b6 w7 b7 w8 b8 e9 b9
    where s: "broadcastWrite reg_ESC_DL_PORT (null_data 1) b = Some (w1, b1)"
      "broadcastWrite reg_RX_ERROR (null_data 8) b1 = Some (w2, b2)"
      "broadcastWrite reg_FMMU (null_data 256) b2 = Some (w3, b3)"
      "broadcastWrite reg_SYNC_MANAGER (null_data 128) b3 = Some (w4, b4)"
      "broadcastWrite reg_DC_SYSTEM_TIME (null_data 8) b4 = Some (w5, b5)"
      "broadcastWrite reg_DC_SYNC_ACTIVATION (null_data 1) b5 = Some (w6, b6)"
      "broadcastWrite reg_DC_SPEED_CNT_START (le16 0x1000) b6 = Some (w7, b7)"
      "broadcastWrite reg_DC_TIME_FILTER (le16 0x0c00) b7 = Some (w8, b8)"
      "requestState State_INIT b8 = Some (e9, b9)"
    and l: "b' = b9 \<or> (\<exists>w10. broadcastWrite reg_EEPROM_CONFIG (null_data 2) b9 = Some (w10, b'))"
    unfolding resetSlaves_def by (auto split: Option.bind_splits if_splits)
  have "same_shape b b9"
    using s(1-8) [THEN broadcastWrite_effect] requestState_effect [OF s(9)]
    by (simp add: same_shape_def)
  moreover have "same_shape b9 b'"
    using l broadcastWrite_effect [of reg_EEPROM_CONFIG "null_data 2" b9 _ b'] by auto
  ultimately show ?thesis by (rule same_shape_trans)
qed

lemma areEepromReady_request_effect:
  assumes "areEepromReady_request sl b = Some b'"
  shows "same_shape b b'"
  using assms
proof (induction sl arbitrary: b)
  case Nil
  then show ?case by simp
next
  case (Cons slave rest)
  from Cons.prems obtain b1 where 1: "addDatagram FPRD (createAddress (address slave) reg_EEPROM_CONTROL) (null_data 2) b = Some b1"
    and 2: "areEepromReady_request rest b1 = Some b'"
    by (auto split: Option.bind_splits)
  from addDatagram_effect [OF 1] Cons.IH [OF 2] show ?case
    by (auto simp: same_shape_def)
qed

lemma areEepromReady_scan_effect:
  "areEepromReady_scan b = Some (ready, b') \<Longrightarrow> same_shape b b'"
proof (induction b arbitrary: ready b' rule: areEepromReady_scan.induct)
  case (1 b)
  from "1.prems" obtain a b1 answer where n: "nextDatagram b = Some (a, b1)"
    and u: "as_u16 (ans_data a) = Some answer"
    by (subst (asm) areEepromReady_scan.simps) (auto split: option.splits)
  from nextDatagram_effect [OF n] have s1: "same_shape b b1" by simp
  show ?case
  proof (cases "answer AND 0x8000 \<noteq> 0")
    case True
    with "1.prems" n u have "b' = b1\<lparr>frames := map Frame_clear (frames b1)\<rparr>"
      by (subst (asm) areEepromReady_scan.simps) simp
    with s1 show ?thesis by (simp add: same_shape_def)
  next
    case False
    show ?thesis
    proof (cases "ans_multiple a")
      case True
      with "1.prems" n u False have "areEepromReady_scan b1 = Some (ready, b')"
        by (subst (asm) areEepromReady_scan.simps) simp
      from "1.IH" [OF n refl u False True this] s1 show ?thesis
        by (rule_tac same_shape_trans)
    next
      case no: False
      with "1.prems" n u False have "b' = b1"
        by (subst (asm) areEepromReady_scan.simps) simp
      with s1 show ?thesis by simp
    qed
  qed
qed

lemma areEepromReady_poll_effect:
  assumes "areEepromReady_poll n b = Some (ready, b')"
  shows "same_shape b b'"
  using assms
proof (induction n arbitrary: b)
  case 0
  then show ?case by simp
next
  case (Suc n)
  from Suc.prems obtain b1 where 1: "areEepromReady_request (slaves b) (usleep 200 b) = Some b1"
    by (auto split: Option.bind_splits)
  obtain err b2 where 2: "processFrames b1 = (err, b2)"
    by (cases "processFrames b1") auto
  from Suc.prems 1 2 have 3: "(is_error err \<and> b' = b2)
            \<or> (\<exists>r b3. areEepromReady_scan b2 = Some (r, b3) \<and> (b' = b3 \<or> areEepromReady_poll n b3 = Some (ready, b')))"
    by (auto split: Option.bind_splits if_splits)
  have u: "same_shape b (usleep 200 b)" by (simp add: usleep_def same_shape_def)
  have "same_shape b b2"
    using u areEepromReady_request_effect [OF 1] processFrames_effect [OF 2]
    by (simp add: same_shape_def)
  moreover have "same_shape b2 b'"
    using 3 areEepromReady_scan_effect [of b2] Suc.IH
    by (auto intro: same_shape_trans)
  ultimately show ?case by (rule same_shape_trans)
qed

lemma readEeprom_request_effect:
  assumes "readEeprom_request sl b = Some b'"
  shows "same_shape b b'"
  using assms
proof (induction sl arbitrary: b)
  case Nil
  then show ?case by simp
next
  case (Cons slave rest)
  from Cons.prems obtain b1 where 1: "addDatagram FPRD (createAddress (address slave) reg_EEPROM_DATA) (null_data 4) b = Some b1"
    and 2: "readEeprom_request rest b1 = Some b'"
    by (auto split: Option.bind_splits)
  from addDatagram_effect [OF 1] Cons.IH [OF 2] show ?case
    by (auto simp: same_shape_def)
qed

lemma readEeprom_extract_effect:
  assumes "readEeprom_extract store sl b = Some (sl', b')"
    and "\<And>s w. address (store s w) = address s"
  shows "same_shape b b' \<and> map address sl' = map address sl"
  using assms(1)
proof (induction sl arbitrary: b sl')
  case Nil
  then show ?case by simp
next
  case (Cons slave rest)
  from Cons.prems obtain a b1 answer rest' where 1: "nextDatagram b = Some (a, b1)"
    and 2: "readEeprom_extract store rest b1 = Some (rest', b')"
    and 3: "sl' = store slave answer # rest'"
    by (auto split: Option.bind_splits)
  from nextDatagram_effect [OF 1] Cons.IH [OF 2] 3 assms(2) show ?case
    by (auto simp: same_shape_def)
qed

text \<open>An operation keeps the station addresses of the slave vector and the number of frames.\<close>

lemma readEeprom_effect:
  assumes "readEeprom addr store b = Some (err, b')"
    and "\<And>s w. address (store s w) = address s"
  shows "map address (slaves b') = map address (slaves b) \<and> length (frames b') = length (frames b)"
proof -
  from assms(1) obtain wkc b1 where 1: "broadcastWrite reg_EEPROM_CONTROL (le16 EepromCommand_READ @ le16 addr @ le16 0) b = Some (wkc, b1)"
    and r: "b' = b1 \<or> (\<exists>ready b2. areEepromReady b1 = Some (ready, b2) \<and> (b' = b2
             \<or> (\<exists>b3 e4 b4. readEeprom_request (slaves b2) b2 = Some b3 \<and> processFrames b3 = (e4, b4)
                   \<and> (b' = b4 \<or> (\<exists>sl b5. readEeprom_extract store (slaves b4) b4 = Some (sl, b5)
                                        \<and> b' = b5\<lparr>slaves := sl\<rparr>)))))"
    unfolding readEeprom_def by (auto split: Option.bind_splits prod.splits if_splits)
  from broadcastWrite_effect [OF 1] have s1: "same_shape b b1" by simp
  from r show ?thesis
  proof (elim disjE exE conjE)
    assume "b' = b1"
    with s1 show ?thesis by (simp add: same_shape_def)
  next
    fix ready b2 assume "areEepromReady b1 = Some (ready, b2)" "b' = b2"
    with s1 areEepromReady_poll_effect [of 10 b1 ready b2] show ?thesis
      by (simp add: same_shape_def areEepromReady_def)
  next
    fix ready b2 b3 e4 b4
    assume "areEepromReady b1 = Some (ready, b2)" "readEeprom_request (slaves b2) b2 = Some b3"
      "processFrames b3 = (e4, b4)" "b' = b4"
    with s1 areEepromReady_poll_effect [of 10 b1 ready b2] readEeprom_request_effect [of "slaves b2" b2 b3]
      processFrames_effect [of b3 e4 b4]
    show ?thesis by (simp add: same_shape_def areEepromReady_def)
  next
    fix ready b2 b3 e4 b4 sl b5
    assume "areEepromReady b1 = Some (ready, b2)" "readEeprom_request (slaves b2) b2 = Some b3"
      "processFrames b3 = (e4, b4)" "readEeprom_extract store (slaves b4) b4 = Some (sl, b5)"
      "b' = b5\<lparr>slaves := sl\<rparr>"
    with s1 areEepromReady_poll_effect [of 10 b1 ready b2] readEeprom_request_effect [of "slaves b2" b2 b3]
      processFrames_effect [of b3 e4 b4] readEeprom_extract_effect [of store "slaves b4" b4 sl b5] assms(2)
    show ?thesis by (simp add: same_shape_def areEepromReady_def)
  qed
qed

lemma fetchEeprom_effect:
  assumes "fetchEeprom b = Some (err, b')"
  shows "map address (slaves b') = map address (slaves b) \<and> length (frames b') = length (frames b)"
proof -
  from assms obtain e1 b1 e2 b2 e3 b3 e4 b4 e5 b5 e6 b6 e7 b7 e8
    where s: "readEeprom eeprom_VENDOR_ID store_vendor_id b = Some (e1, b1)"
      "readEeprom eeprom_PRODUCT_CODE store_product_code b1 = Some (e2, b2)"
      "readEeprom eeprom_REVISION_NUMBER store_revision_number b2 = Some (e3, b3)"
      "readEeprom eeprom_SERIAL_NUMBER store_serial_number b3 = Some (e4, b4)"
      "readEeprom (eeprom_STANDARD_MAILBOX + eeprom_RECV_MBO_OFFSET) store_recv_mailbox b4 = Some (e5, b5)"
      "readEeprom (eeprom_STANDARD_MAILBOX + eeprom_SEND_MBO_OFFSET) store_send_mailbox b5 = Some (e6, b6)"
      "readEeprom eeprom_MAILBOX_PROTOCOL store_supported_mailbox b6 = Some (e7, b7)"
      "readEeprom eeprom_EEPROM_SIZE store_eeprom_size b7 = Some (e8, b')"
    unfolding fetchEeprom_def by (auto split: Option.bind_splits)
  show ?thesis
    using readEeprom_effect [OF s(1)] readEeprom_effect [OF s(2)] readEeprom_effect [OF s(3)]
      readEeprom_effect [OF s(4)] readEeprom_effect [OF s(5)] readEeprom_effect [OF s(6)]
      readEeprom_effect [OF s(7)] readEeprom_effect [OF s(8)]
    by (simp add: store_vendor_id_def store_product_code_def store_revision_number_def
        store_serial_number_def store_recv_mailbox_def store_send_mailbox_def
        store_supported_mailbox_def store_eeprom_size_def)
qed

lemma configureMailboxes_request_effect:
  assumes "configureMailboxes_request sl b = Some b'"
  shows "same_shape b b'"
  using assms
proof (induction sl arbitrary: b)
  case Nil
  then show ?case by simp
next
  case (Cons slave rest)
  show ?case
  proof (cases "supported_mailbox slave \<noteq> 0")
    case True
    with Cons.prems obtain b1 where 1: "addDatagram FPRW (createAddress (address slave) reg_SYNC_MANAGER) (mailbox_SM slave) b = Some b1"
      and 2: "configureMailboxes_request rest b1 = Some b'"
      by (auto split: Option.bind_splits)
    from addDatagram_effect [OF 1] Cons.IH [OF 2] show ?thesis
      by (auto simp: same_shape_def)
  next
    case False
    with Cons.prems Cons.IH show ?thesis by simp
  qed
qed

lemma configureMailboxes_effect:
  assumes "configureMailboxes b = Some (err, b')"
  shows "same_shape b b'"
proof -
  from assms obtain b1 where 1: "configureMailboxes_request (slaves b) b = Some b1"
    and 2: "processFrames b1 = (err, b')"
    by (auto simp: configureMailboxes_def split: Option.bind_splits)
  from configureMailboxes_request_effect [OF 1] processFrames_effect [OF 2] show ?thesis
    by (auto simp: same_shape_def)
qed

lemma init_preop_effect:
  assumes "init_preop err b = Some (r, b')"
  shows "map address (slaves b') = map address (slaves b)"
proof -
  from assms obtain e1 b1 sl b2 states where 1: "requestState State_PRE_OP b = Some (e1, b1)"
    and 2: "checkMailboxes (slaves (usleep 10000 b1)) (usleep 10000 b1) = Some (sl, b2)"
    and 3: "init_report sl (b2\<lparr>slaves := sl\<rparr>) = Some (states, b')"
    by (auto simp: init_preop_def split: Option.bind_splits)
  from requestState_effect [OF 1] checkMailboxes_effect [OF 2] init_report_effect [OF 3]
  show ?thesis by (simp add: same_shape_def usleep_def)
qed

section \<open>EEPROM decoding\<close>

















section \<open>Station addresses\<close>

lemma idle_batching:
  assumes "idle b"
  shows "batching b" and "batch b = []"
proof -
  from assms have c: "current_frame b = 0" and f: "frames b \<noteq> []"
    and e: "list_all (\<lambda>f. datagrams f = []) (frames b)"
    by (simp_all add: idle_def)
  from e have e0: "datagrams (frames b ! 0) = []"
    using f by (simp add: list_all_length)
  have "set (drop (Suc 0) (frames b)) \<subseteq> set (frames b)" by (rule set_drop_subset)
  with e have "list_all (\<lambda>f. datagrams f = []) (drop (Suc 0) (frames b))"
    by (auto simp: list_all_iff)
  moreover from e have "list_all small (frames b)"
    by (auto simp: list_all_iff small_def)
  ultimately show "batching b"
    using c f e0 by (simp add: batching_def datagramCounter_def)
  from e show "batch b = []" by (simp add: batch_def concat_empty)
qed

lemma map_address_map2:
  "length xs = length ys \<Longrightarrow> map address (map2 (\<lambda>j s. s\<lparr>address := g j\<rparr>) xs ys) = map g xs"
  by (induction xs ys rule: list_induct2) simp_all

lemma station_address_inj:
  assumes "i < 65536" "j < 65536" "(0x1000 :: u16) + of_nat i = 0x1000 + of_nat j"
  shows "i = j"
proof -
  from assms(3) have "(of_nat i :: u16) = of_nat j" by simp
  then have "take_bit 16 i = take_bit 16 j" by (simp add: word_of_nat_eq_iff)
  with assms(1,2) show ?thesis by (simp add: take_bit_nat_eq_self)
qed

lemma station_addresses_distinct:
  assumes "n \<le> 65536"
  shows "distinct (map (\<lambda>i. (0x1000 :: u16) + of_nat i) [0..<n])"
proof -
  have "inj_on (\<lambda>i. (0x1000 :: u16) + of_nat i) (set [0..<n])"
    using assms by (intro inj_onI station_address_inj) auto
  then show ?thesis by (simp add: distinct_map)
qed

lemma station_address_unat:
  assumes "i < 0xF000"
  shows "unat ((0x1000 :: u16) + of_nat i) = 0x1000 + i"
proof -
  from assms have "i mod 65536 = i" by simp
  moreover from assms have "(4096 + i) mod 65536 = 4096 + i" by simp
  ultimately show ?thesis by (simp add: unat_word_ariths unat_of_nat)
qed

lemma station_addresses_unat:
  assumes "n \<le> 0xF000"
  shows "map (unat \<circ> (\<lambda>i. (0x1000 :: u16) + of_nat i)) [0..<n] = [0x1000..<0x1000 + n]"
proof -
  have "map (unat \<circ> (\<lambda>i. (0x1000 :: u16) + of_nat i)) [0..<n] = map (\<lambda>i. i + 0x1000) [0..<n]"
    using assms by (intro map_cong refl) (simp add: station_address_unat)
  also have "\<dots> = [0x1000..<n + 0x1000]" by (rule map_add_upt)
  finally show ?thesis by (simp add: add.commute)
qed

lemma init_set_addresses_table:
  assumes "init_set_addresses i sl b = Some (sl', b')"
  shows "sl' = map2 (\<lambda>j s. s\<lparr>address := 0x1000 + of_nat j\<rparr>) [i..<i + length sl] sl"
  using assms
proof (induction sl arbitrary: i b sl')
  case Nil
  then show ?case by simp
next
  case (Cons slave rest)
  from Cons.prems obtain b1 rest' where 1: "init_set_addresses (Suc i) rest b1 = Some (rest', b')"
    and 2: "sl' = slave\<lparr>address := 0x1000 + of_nat i\<rparr> # rest'"
    by (auto split: Option.bind_splits)
  have "i < Suc (i + length rest)" by simp
  then have upt: "[i..<Suc (i + length rest)] = i # [Suc i..<Suc (i + length rest)]"
    by (rule upt_conv_Cons)
  from Cons.IH [OF 1] 2 show ?case by (simp add: upt del: upt_Suc)
qed

lemma needed_frames_room:
  "unat wkc + MAX_ETHERCAT_DATAGRAMS \<le> MAX_ETHERCAT_DATAGRAMS * needed_frames wkc"
proof -
  have "unat wkc * 2 < 15 + 15 * (unat wkc * 2 div 15)"
    by (rule dividend_less_times_div) simp
  then show ?thesis by (simp add: needed_frames_def MAX_ETHERCAT_DATAGRAMS_def)
qed

lemma init_preop_fails:
  assumes "init_preop err b = Some ((err', states), b')"
  shows "is_error err'"
  using assms
  by (auto simp: init_preop_def is_error_def Error_add_def EERROR_def split: Option.bind_splits)

lemma init_fails:
  assumes "init b = Some (res, b')"
  shows "is_error (fst res)"
proof -
  from assms have "(\<exists>err. is_error err \<and> res = (err, [])) \<or> (\<exists>e6 b6. init_preop e6 b6 = Some (res, b'))"
    by (auto simp: init_def split: Option.bind_splits if_splits prod.splits)
  then show ?thesis
    using init_preop_fails [of _ _ "fst res" "snd res" b'] by auto
qed

lemma init_addresses:
  assumes d: "detectSlaves b0 = Some (e1, b1)" "\<not> is_error e1"
    and r: "resetSlaves b1 = Some (e2, b2)" "\<not> is_error e2"
    and i: "init b0 = Some (res, b')"
  shows "\<exists>sl b3 err b4. init_set_addresses 0 (slaves b2) b2 = Some (sl, b3)
     \<and> processFrames (b3\<lparr>slaves := sl\<rparr>) = (err, b4)
     \<and> map address (slaves b') = map (\<lambda>i. 0x1000 + of_nat i) [0..<length (slaves b2)]"
proof -
  from i d r obtain sl b3 where a: "init_set_addresses 0 (slaves b2) b2 = Some (sl, b3)"
    by (auto simp: init_def split: Option.bind_splits if_splits)
  obtain err b4 where p: "processFrames (b3\<lparr>slaves := sl\<rparr>) = (err, b4)"
    by (cases "processFrames (b3\<lparr>slaves := sl\<rparr>)") auto
  have t: "sl = map2 (\<lambda>j s. s\<lparr>address := 0x1000 + of_nat j\<rparr>) [0..<length (slaves b2)] (slaves b2)"
    using init_set_addresses_table [OF a] by simp
  have addr_sl: "map address sl = map (\<lambda>i. 0x1000 + of_nat i) [0..<length (slaves b2)]"
    unfolding t by (rule map_address_map2) simp
  from processFrames_effect [OF p] have s4: "slaves b4 = sl" by (simp add: same_shape_def)
  from i d r a p have rest: "(is_error err \<and> b' = b4)
      \<or> (\<exists>e5 b5. fetchEeprom b4 = Some (e5, b5) \<and> ((is_error e5 \<and> b' = b5)
           \<or> (\<exists>e6 b6. configureMailboxes b5 = Some (e6, b6) \<and> ((is_error e6 \<and> b' = b6)
                \<or> init_preop e6 b6 = Some (res, b')))))"
    by (auto simp: init_def split: Option.bind_splits if_splits)
  from rest have "map address (slaves b') = map address (slaves b4)"
  proof (elim disjE exE conjE)
    assume "b' = b4"
    then show ?thesis by simp
  next
    fix e5 b5 assume "fetchEeprom b4 = Some (e5, b5)" "b' = b5"
    then show ?thesis using fetchEeprom_effect [of b4 e5 b5] by simp
  next
    fix e5 b5 e6 b6
    assume "fetchEeprom b4 = Some (e5, b5)" "configureMailboxes b5 = Some (e6, b6)" "b' = b6"
    then show ?thesis
      using fetchEeprom_effect [of b4 e5 b5] configureMailboxes_effect [of b5 e6 b6]
      by (simp add: same_shape_def)
  next
    fix e5 b5 e6 b6
    assume "fetchEeprom b4 = Some (e5, b5)" "configureMailboxes b5 = Some (e6, b6)"
      "init_preop e6 b6 = Some (res, b')"
    then show ?thesis
      using fetchEeprom_effect [of b4 e5 b5] configureMailboxes_effect [of b5 e6 b6]
        init_preop_effect [of e6 b6 res b']
      by (simp add: same_shape_def)
  qed
  with s4 addr_sl a p show ?thesis by simp
qed

text \<open>
  C8 (as amended): let discovery and reset succeed, with \<open>N\<close> slaves. \<open>init\<close> never reports
  success (at the latest it ends with the error "Not implemented"); whenever it returns,
  the station address of slave \<open>i\<close> in the slave vector is the 16-bit value \<open>0x1000 + i\<close>,
  for every \<open>i < N\<close>, and these are pairwise distinct; as numbers they are
  0x1000 .. 0x1000 + N - 1 as long as \<open>N \<le> 0xF000\<close> (beyond, the 16-bit address wraps).
  When reset leaves the cursor on the first frame and the frames as a batch in the making
  (the first frame with at most 15 datagrams, the others empty, no payload over 64 bytes;
  empty frames in particular), the addressing loop writes nothing to the socket and appends
  to what the frames hold, in bus order, one APRW datagram per slave \<open>i\<close>, to STATION_ADDR
  at position \<open>- i\<close> with the two bytes of \<open>0x1000 + i\<close>; the one \<open>processFrames\<close> that
  follows hands frames to the socket and, when it reports no error, those frames carry
  exactly what the frames held, these \<open>N\<close> datagrams last.
\<close>

theorem init_station_addresses:
  assumes d: "detectSlaves b0 = Some (e1, b1)" "\<not> is_error e1"
    and r: "resetSlaves b1 = Some (e2, b2)" "\<not> is_error e2"
    and i: "init b0 = Some (res, b')"
  shows "is_error (fst res)
    \<and> map address (slaves b') = map (\<lambda>i. 0x1000 + of_nat i) [0..<length (slaves b2)]
    \<and> distinct (map address (slaves b'))
    \<and> (length (slaves b2) \<le> 0xF000 \<longrightarrow>
          map (unat \<circ> address) (slaves b') = [0x1000..<0x1000 + length (slaves b2)])
    \<and> (batching b2 \<and> current_frame b2 = 0 \<longrightarrow>
         (\<exists>sl b3 err b4 ws.
            init_set_addresses 0 (slaves b2) b2 = Some (sl, b3)
          \<and> events b3 = events b2
          \<and> batch b3 = batch b2 @ map (set_station_address (idx b2)) [0..<length (slaves b2)]
          \<and> processFrames (b3\<lparr>slaves := sl\<rparr>) = (err, b4)
          \<and> events b4 = events b2 @ map Written ws
          \<and> (\<not> is_error err \<longrightarrow>
                concat ws = batch b2 @ map (set_station_address (idx b2)) [0..<length (slaves b2)])))"
proof -
  define N where "N = length (slaves b2)"
  from detectSlaves_effect [OF d] obtain wkc where w: "length (slaves b1) = unat wkc"
    "length (frames b1) = length (frames b0) + (needed_frames wkc - 1)" "frames b0 \<noteq> []"
    by blast
  from w(3) have "Suc 0 \<le> length (frames b0)" by (cases "frames b0") simp_all
  with w(2) have "needed_frames wkc \<le> length (frames b1)" by linarith
  then have "MAX_ETHERCAT_DATAGRAMS * needed_frames wkc \<le> MAX_ETHERCAT_DATAGRAMS * length (frames b1)"
    by (rule mult_le_mono2)
  with needed_frames_room [of wkc] w(1)
  have "length (slaves b1) + MAX_ETHERCAT_DATAGRAMS \<le> MAX_ETHERCAT_DATAGRAMS * length (frames b1)"
    by linarith
  with resetSlaves_effect [OF r(1)]
  have room: "length (slaves b2) + MAX_ETHERCAT_DATAGRAMS \<le> MAX_ETHERCAT_DATAGRAMS * length (frames b2)"
    by (simp add: same_shape_def)
  have "unat wkc < 2 ^ 16" using unsigned_less [of wkc] by simp
  with w(1) resetSlaves_effect [OF r(1)] have N: "N < 65536" by (simp add: N_def same_shape_def)
  from init_addresses [OF d r i] obtain sl b3 err b4
    where a: "init_set_addresses 0 (slaves b2) b2 = Some (sl, b3)"
      and p: "processFrames (b3\<lparr>slaves := sl\<rparr>) = (err, b4)"
      and final: "map address (slaves b') = map (\<lambda>i. 0x1000 + of_nat i) [0..<N]"
    unfolding N_def by blast
  have dist: "distinct (map address (slaves b'))"
    unfolding final using N by (intro station_addresses_distinct) simp
  have num: "N \<le> 0xF000 \<longrightarrow> map (unat \<circ> address) (slaves b') = [0x1000..<0x1000 + N]"
  proof
    assume "N \<le> 0xF000"
    from station_addresses_unat [OF this] final show "map (unat \<circ> address) (slaves b') = [0x1000..<0x1000 + N]"
      by (simp add: map_map [symmetric] del: map_map)
  qed
  have wire: "batching b2 \<and> current_frame b2 = 0 \<longrightarrow>
         (\<exists>sl b3 err b4 ws.
            init_set_addresses 0 (slaves b2) b2 = Some (sl, b3)
          \<and> events b3 = events b2
          \<and> batch b3 = batch b2 @ map (set_station_address (idx b2)) [0..<N]
          \<and> processFrames (b3\<lparr>slaves := sl\<rparr>) = (err, b4)
          \<and> events b4 = events b2 @ map Written ws
          \<and> (\<not> is_error err \<longrightarrow> concat ws = batch b2 @ map (set_station_address (idx b2)) [0..<N]))"
  proof
    assume c: "batching b2 \<and> current_frame b2 = 0"
    then have inv: "batching b2" and cur: "current_frame b2 = 0" by simp_all
    from inv have "datagramCounter (frames b2 ! current_frame b2) \<le> MAX_ETHERCAT_DATAGRAMS"
      by (simp add: batching_def)
    with batching_batch(2) [OF inv] cur have "length (batch b2) \<le> MAX_ETHERCAT_DATAGRAMS" by simp
    with room have room': "length (batch b2) + length (slaves b2) \<le> MAX_ETHERCAT_DATAGRAMS * length (frames b2)"
      by linarith
    from init_set_addresses_batching [OF inv room', of 0] a
    have inv3: "batching b3"
      and batch3: "batch b3 = batch b2 @ map (set_station_address (idx b2)) [0..<N]"
      and ev3: "events b3 = events b2"
      by (auto simp: N_def)
    have inv3': "batching (b3\<lparr>slaves := sl\<rparr>)" "batch (b3\<lparr>slaves := sl\<rparr>) = batch b3"
      using inv3 by (simp_all add: batching_def batch_def)
    from processFrames_batch [OF inv3'(1) p] obtain ws
      where ws: "events b4 = events b2 @ map Written ws" "\<not> is_error err \<longrightarrow> concat ws = batch b3"
      by (auto simp: ev3 inv3'(2))
    from a ev3 batch3 p ws show "\<exists>sl b3 err b4 ws.
            init_set_addresses 0 (slaves b2) b2 = Some (sl, b3)
          \<and> events b3 = events b2
          \<and> batch b3 = batch b2 @ map (set_station_address (idx b2)) [0..<N]
          \<and> processFrames (b3\<lparr>slaves := sl\<rparr>) = (err, b4)
          \<and> events b4 = events b2 @ map Written ws
          \<and> (\<not> is_error err \<longrightarrow> concat ws = batch b2 @ map (set_station_address (idx b2)) [0..<N])"
      by (intro exI conjI) (assumption | simp)+
  qed
  from init_fails [OF i] final dist num wire show ?thesis
    unfolding N_def [symmetric] by simp
qed

theorem init_station_addresses_witness:
  "map_option (\<lambda>(res, b'). (res, map address (slaves b'), map (unat \<circ> address) (slaves b'), socket b'))
       (init (Bus_new two_slaves_link))
     = Some ((EERROR ''Not implemented'', [State_PRE_OP, State_PRE_OP]), [0x1000, 0x1001], [4096, 4097], [])
   \<and> distinct [0x1000 :: u16, 0x1001]
   \<and> (\<exists>b1 b2 sl b3. detectSlaves (Bus_new two_slaves_link) = Some (ESUCCESS, b1)
        \<and> resetSlaves b1 = Some (ESUCCESS, b2)
        \<and> init_set_addresses 0 (slaves b2) b2 = Some (sl, b3)
        \<and> events b3 = events b2
        \<and> batch b3 = [set_station_address 11 0, set_station_address 11 1])"
proof -
  define b0 where "b0 = Bus_new two_slaves_link"
  define b1 where "b1 = snd (the (detectSlaves b0))"
  define b2 where "b2 = snd (the (resetSlaves b1))"
  have d: "detectSlaves b0 = Some (ESUCCESS, b1)"
  proof -
    have "map_option fst (detectSlaves (Bus_new two_slaves_link)) = Some ESUCCESS" by code_simp
    then show ?thesis by (auto simp: b0_def b1_def)
  qed
  have "map_option (\<lambda>(e, b). (e, batching b, current_frame b, length (slaves b), batch b, idx b))
          (resetSlaves (snd (the (detectSlaves (Bus_new two_slaves_link)))))
        = Some (ESUCCESS, True, 0, 2, [], 11)"
    by code_simp
  then have r: "resetSlaves b1 = Some (ESUCCESS, b2)"
    and inv: "batching b2 \<and> current_frame b2 = 0"
    and n: "length (slaves b2) = 2" "batch b2 = []" "idx b2 = 11"
    by (auto simp: b0_def b1_def b2_def)
  have ok: "\<not> is_error ESUCCESS" by (simp add: is_error_def ESUCCESS_def)
  have run: "map_option (\<lambda>(res, b'). (res, socket b')) (init (Bus_new two_slaves_link))
     = Some ((EERROR ''Not implemented'', [State_PRE_OP, State_PRE_OP]), [])"
    by code_simp
  then obtain res b' where i: "init b0 = Some (res, b')"
    and res: "res = (EERROR ''Not implemented'', [State_PRE_OP, State_PRE_OP])" "socket b' = []"
    by (auto simp: b0_def)
  note t = init_station_addresses [OF d ok r ok i]
  from t n have a: "map address (slaves b') = [0x1000, 0x1001]" "distinct (map address (slaves b'))"
    by (simp_all add: upt_rec numeral_2_eq_2)
  from t n have "map (unat \<circ> address) (slaves b') = [0x1000..<0x1000 + 2]" by simp
  then have u: "map (unat \<circ> address) (slaves b') = [4096, 4097]" by (simp add: upt_rec)
  from t inv obtain sl b3 where w: "init_set_addresses 0 (slaves b2) b2 = Some (sl, b3)"
    "events b3 = events b2"
    "batch b3 = batch b2 @ map (set_station_address (idx b2)) [0..<length (slaves b2)]"
    by blast
  from w(3) n have "batch b3 = [set_station_address 11 0, set_station_address 11 1]"
    by (simp add: upt_rec numeral_2_eq_2)
  with d r w(1,2) have "\<exists>b1 b2 sl b3. detectSlaves b0 = Some (ESUCCESS, b1)
        \<and> resetSlaves b1 = Some (ESUCCESS, b2)
        \<and> init_set_addresses 0 (slaves b2) b2 = Some (sl, b3)
        \<and> events b3 = events b2
        \<and> batch b3 = [set_station_address 11 0, set_station_address 11 1]"
    by (intro exI [of _ b1] exI [of _ b2] exI [of _ sl] exI [of _ b3] conjI)
  with i res a u show ?thesis by (simp add: b0_def)
qed

text \<open>
  C8 as stated fails for 0xF001 slaves, a number that discovery accepts (it then sizes the
  controller to 16386 frames): the addressing loop of \<open>init\<close> gives the slave at position
  0xF000 the station address 0x0000, which is not in 0x1000 .. 0x1000 + N - 1.
\<close>

theorem init_station_addresses_counterexample:
  "map_option (\<lambda>(err, b). (err, length (slaves b), length (frames b)))
     (detectSlaves (Bus_new [Reply [reply_wkc 0xF001]])) = Some (ESUCCESS, 0xF001, 16386)
   \<and> map_option (\<lambda>(sl, b). (length sl, address (sl ! 0xF000)))
       (init_set_addresses 0 (replicate 0xF001 Slave_new) (Bus_idle (replicate 0xF001 Slave_new) 16386 []))
     = Some (0xF001, 0)
   \<and> unat (0 :: u16) \<notin> {0x1000 ..< 0x1000 + 0xF001}"
proof -
  define b where "b = Bus_idle (replicate 0xF001 Slave_new) 16386 []"
  have "socket (Bus_new [Reply [reply_wkc 0xF001]]) = Reply (reply_wkc 0xF001 # []) # []"
    "frames (Bus_new [Reply [reply_wkc 0xF001]]) \<noteq> []"
    by (simp_all add: Bus_new_def)
  from detectSlaves_reply [OF this]
  have 1: "map_option (\<lambda>(err, b). (err, length (slaves b), length (frames b)))
     (detectSlaves (Bus_new [Reply [reply_wkc 0xF001]])) = Some (ESUCCESS, 0xF001, 16386)"
    by (auto simp: reply_wkc_def needed_frames_def MAX_ETHERCAT_DATAGRAMS_def Bus_new_def)
  have idle: "idle b"
    by (simp add: b_def Bus_idle_def idle_def list_all_iff Frame_new_def)
  have room: "length (batch b) + length (replicate 0xF001 Slave_new) \<le> MAX_ETHERCAT_DATAGRAMS * length (frames b)"
    by (simp add: idle_batching(2) [OF idle]) (simp add: b_def Bus_idle_def MAX_ETHERCAT_DATAGRAMS_def)
  from init_set_addresses_batching [OF idle_batching(1) [OF idle] room, of 0]
  obtain sl' b' where a: "init_set_addresses 0 (replicate 0xF001 Slave_new) b = Some (sl', b')"
    and sl': "sl' = map2 (\<lambda>j s. s\<lparr>address := 0x1000 + of_nat j\<rparr>) [0..<0xF001] (replicate 0xF001 Slave_new)"
    by auto
  have "length sl' = 0xF001" "address (sl' ! 0xF000) = 0"
    by (simp_all add: sl')
  with a have 2: "map_option (\<lambda>(sl, b). (length sl, address (sl ! 0xF000)))
       (init_set_addresses 0 (replicate 0xF001 Slave_new) b) = Some (0xF001, 0)"
    by simp
  have 3: "unat (0 :: u16) \<notin> {0x1000 ..< 0x1000 + 0xF001}" by simp
  from 1 2 3 show ?thesis unfolding b_def by blast
qed

end
